theory Spec2Isabelle
  imports Complex_Main "HOL-Library.AList"
begin

section \<open>Common data\<close>

text \<open>
  JavaScript numbers are modelled as follows: coordinates, sizes and step counts are
  \<open>int\<close>, grid cells (0 = open, 1 = wall) are \<open>nat\<close>, rewards and action values are
  \<open>real\<close> (IEEE rounding is not modelled). A position object \<open>{x, y}\<close> is the pair
  \<open>(x, y)\<close>. \<open>Math.random()\<close> is a parameter: a sequence \<open>rnd\<close> of draws together with
  the index of the next draw, which every function that draws returns advanced.
\<close>

type_synonym position = "int \<times> int"

type_synonym grid = "nat list list"

type_synonym random_source = "nat \<Rightarrow> real"

datatype js_error = TypeError | RangeError

text \<open>Reading \<open>xs[i]\<close>: \<open>None\<close> stands for JavaScript's \<open>undefined\<close>.\<close>

definition js_index :: "'a list \<Rightarrow> int \<Rightarrow> 'a option" where
  "js_index xs i = (if 0 \<le> i \<and> i < int (length xs) then Some (xs ! nat i) else None)"

section \<open>The Q-learning agent (client/src/lib/q-learning.ts)\<close>

text \<open>
  The four action strings \<open>'up'\<close>, \<open>'right'\<close>, \<open>'down'\<close>, \<open>'left'\<close>. The field
  \<open>this.actions\<close> is assigned once, in the constructor, and is the constant \<open>actions\<close>.
\<close>

datatype action = ActUp | ActRight | ActDown | ActLeft

definition actions :: "action list" where
  "actions = [ActUp, ActRight, ActDown, ActLeft]"

text \<open>
  A \<open>QTableEntry\<close> is an object from action names to numbers: its own properties in
  insertion order. The \<open>Map\<close> \<open>qTable\<close> is its entries in insertion order;
  \<open>AList.update\<close> is \<open>Map.set\<close> (and the assignment of an object property): it replaces
  the value of a key that is present where it stands and appends a new key.
\<close>

type_synonym QTableEntry = "(action \<times> real) list"

record EpisodeResult =
  success :: bool
  steps :: int
  totalReward :: real
  finalPosition :: position
  path :: "position list"

record QLearningAgent =
  qTable :: "(string \<times> QTableEntry) list"
  learningRate :: real
  discountFactor :: real
  explorationRate :: real
  mazeSize :: int

definition new_QLearningAgent :: "int \<Rightarrow> real \<Rightarrow> real \<Rightarrow> real \<Rightarrow> QLearningAgent" where
  "new_QLearningAgent mazeSize0 lr df er =
     \<lparr>qTable = [], learningRate = lr, discountFactor = df, explorationRate = er,
      mazeSize = mazeSize0\<rparr>"

fun digits :: "nat \<Rightarrow> string" where
  "digits n =
     (if n < 10 then [''0123456789'' ! n]
      else digits (n div 10) @ [''0123456789'' ! (n mod 10)])"

definition number_to_string :: "int \<Rightarrow> string" where
  "number_to_string i = (if i < 0 then CHR ''-'' # digits (nat (- i)) else digits (nat i))"

definition getStateKey :: "int \<Rightarrow> int \<Rightarrow> string" where
  "getStateKey x y = number_to_string x @ '','' @ number_to_string y"

definition initializeQValues :: "QLearningAgent \<Rightarrow> string \<Rightarrow> QLearningAgent" where
  "initializeQValues ag stateKey =
     (if map_of (qTable ag) stateKey = None
      then ag\<lparr>qTable :=
             AList.update stateKey (fold (\<lambda>a qValues. AList.update a 0 qValues) actions [])
               (qTable ag)\<rparr>
      else ag)"

text \<open>
  \<open>this.qTable.get(stateKey)!\<close> and \<open>qValues[action]\<close>. Both are read only after
  \<open>initializeQValues\<close>, where the key is present; the action is present in every entry
  this class builds (\<open>table_complete\<close> below), and the value read for a missing one
  (JavaScript's \<open>undefined\<close>) is left unspecified.
\<close>

definition table_get :: "QLearningAgent \<Rightarrow> string \<Rightarrow> QTableEntry" where
  "table_get ag stateKey = the (map_of (qTable ag) stateKey)"

definition entry_get :: "QTableEntry \<Rightarrow> action \<Rightarrow> real" where
  "entry_get qValues a = the (map_of qValues a)"

text \<open>
  \<open>Math.max(...vs)\<close> for a list with at least one number (for no argument JavaScript
  gives \<open>-Infinity\<close>, which is not a real number and is left unspecified).
\<close>

definition Math_max :: "real list \<Rightarrow> real" where
  "Math_max vs = fold max (tl vs) (hd vs)"

text \<open>
  \<open>chooseAction\<close> returns the action, the agent (whose table may have gained the
  state) and the index of the next draw. Exploring uses two draws, exploiting one. The
  random index is inside \<open>actions\<close> for a draw in [0, 1).
\<close>

definition chooseAction ::
  "QLearningAgent \<Rightarrow> int \<Rightarrow> int \<Rightarrow> random_source \<Rightarrow> nat \<Rightarrow> action \<times> QLearningAgent \<times> nat" where
  "chooseAction ag x y rnd k =
     (let stateKey = getStateKey x y;
          ag1 = initializeQValues ag stateKey
      in if rnd k < explorationRate ag1
         then (actions ! nat \<lfloor>rnd (k + 1) * real (length actions)\<rfloor>, ag1, k + 2)
         else
           (let qValues = table_get ag1 stateKey;
                bestAction = actions ! 0;
                bestValue = entry_get qValues bestAction;
                best = fold (\<lambda>a (bestAction, bestValue).
                               if entry_get qValues a > bestValue
                               then (a, entry_get qValues a)
                               else (bestAction, bestValue))
                            actions (bestAction, bestValue)
            in (fst best, ag1, k + 1)))"

fun getNextPosition :: "int \<Rightarrow> int \<Rightarrow> action \<Rightarrow> position" where
  "getNextPosition x y ActUp = (x, y - 1)"
| "getNextPosition x y ActRight = (x + 1, y)"
| "getNextPosition x y ActDown = (x, y + 1)"
| "getNextPosition x y ActLeft = (x - 1, y)"

text \<open>
  \<open>maze[y][x] === 0\<close> raises a TypeError when \<open>maze[y]\<close> is undefined and is false
  when \<open>maze[y][x]\<close> is.
\<close>

definition isValidMove :: "QLearningAgent \<Rightarrow> int \<Rightarrow> int \<Rightarrow> grid \<Rightarrow> js_error + bool" where
  "isValidMove ag x y maze =
     (if x \<ge> 0 \<and> x < mazeSize ag \<and> y \<ge> 0 \<and> y < mazeSize ag
      then (case js_index maze y of
              None \<Rightarrow> Inl TypeError
            | Some row \<Rightarrow> Inr (js_index row x = Some 0))
      else Inr False)"

definition calculateReward ::
  "QLearningAgent \<Rightarrow> int \<Rightarrow> int \<Rightarrow> int \<Rightarrow> int \<Rightarrow> grid \<Rightarrow> int \<Rightarrow> int \<Rightarrow> js_error + real" where
  "calculateReward ag x y newX newY maze goalX goalY =
     (case isValidMove ag newX newY maze of
        Inl e \<Rightarrow> Inl e
      | Inr valid \<Rightarrow>
          if \<not> valid then Inr (- 10)
          else if newX = goalX \<and> newY = goalY then Inr 100
          else Inr (- 1))"

definition updateQValue ::
  "QLearningAgent \<Rightarrow> string \<Rightarrow> action \<Rightarrow> real \<Rightarrow> string \<Rightarrow> QLearningAgent" where
  "updateQValue ag state a reward nextState =
     (let ag1 = initializeQValues ag state;
          ag2 = initializeQValues ag1 nextState;
          currentQ = entry_get (table_get ag2 state) a;
          nextQValues = table_get ag2 nextState;
          maxNextQ = Math_max (map snd nextQValues);
          newQ = currentQ + learningRate ag2 * (reward + discountFactor ag2 * maxNextQ - currentQ)
      in ag2\<lparr>qTable :=
             AList.update state (AList.update a newQ (table_get ag2 state)) (qTable ag2)\<rparr>)"

text \<open>The variables of \<open>runEpisode\<close>'s loop, with the agent and the next draw.\<close>

record episode_state =
  es_agent :: QLearningAgent
  es_rng :: nat
  es_x :: int
  es_y :: int
  es_steps :: int
  es_totalReward :: real
  es_path :: "position list"

text \<open>One pass through the loop body, up to and including \<open>path.push\<close>.\<close>

definition episode_iteration ::
  "grid \<Rightarrow> position \<Rightarrow> random_source \<Rightarrow> episode_state \<Rightarrow> js_error + episode_state" where
  "episode_iteration maze goalPos rnd st =
     (let x = es_x st; y = es_y st;
          currentState = getStateKey x y;
          (a, ag1, k1) = chooseAction (es_agent st) x y rnd (es_rng st);
          nextPos = getNextPosition x y a
      in case calculateReward ag1 x y (fst nextPos) (snd nextPos) maze (fst goalPos) (snd goalPos) of
           Inl e \<Rightarrow> Inl e
         | Inr reward \<Rightarrow>
             (case isValidMove ag1 (fst nextPos) (snd nextPos) maze of
                Inl e \<Rightarrow> Inl e
              | Inr valid \<Rightarrow>
                  (let actualNextX = (if valid then fst nextPos else x);
                       actualNextY = (if valid then snd nextPos else y);
                       nextState = getStateKey actualNextX actualNextY;
                       ag2 = updateQValue ag1 currentState a reward nextState
                   in Inr \<lparr>es_agent = ag2, es_rng = k1, es_x = actualNextX, es_y = actualNextY,
                           es_steps = es_steps st + 1,
                           es_totalReward = es_totalReward st + reward,
                           es_path = es_path st @ [(actualNextX, actualNextY)]\<rparr>)))"

definition episode_result :: "bool \<Rightarrow> episode_state \<Rightarrow> EpisodeResult \<times> QLearningAgent \<times> nat" where
  "episode_result ok st =
     (\<lparr>success = ok, steps = es_steps st, totalReward = es_totalReward st,
       finalPosition = (es_x st, es_y st), path = es_path st\<rparr>,
      es_agent st, es_rng st)"

function runEpisode_loop ::
  "grid \<Rightarrow> position \<Rightarrow> int \<Rightarrow> random_source \<Rightarrow> episode_state
     \<Rightarrow> js_error + (EpisodeResult \<times> QLearningAgent \<times> nat)" where
  "runEpisode_loop maze goalPos maxSteps rnd st =
     (if es_steps st < maxSteps
      then (case episode_iteration maze goalPos rnd st of
              Inl e \<Rightarrow> Inl e
            | Inr st' \<Rightarrow>
                if es_x st' = fst goalPos \<and> es_y st' = snd goalPos
                then Inr (episode_result True st')
                else runEpisode_loop maze goalPos maxSteps rnd st')
      else Inr (episode_result False st))"
  by pat_completeness auto
termination
  by (relation "measure (\<lambda>(maze, goalPos, maxSteps, rnd, st). nat (maxSteps - es_steps st))")
     (auto simp: episode_iteration_def Let_def split: prod.splits sum.splits)

declare runEpisode_loop.simps [simp del]

definition runEpisode ::
  "QLearningAgent \<Rightarrow> grid \<Rightarrow> position \<Rightarrow> position \<Rightarrow> int \<Rightarrow> random_source \<Rightarrow> nat
     \<Rightarrow> js_error + (EpisodeResult \<times> QLearningAgent \<times> nat)" where
  "runEpisode ag maze startPos goalPos maxSteps rnd k =
     runEpisode_loop maze goalPos maxSteps rnd
       \<lparr>es_agent = ag, es_rng = k, es_x = fst startPos, es_y = snd startPos, es_steps = 0,
        es_totalReward = 0, es_path = [(fst startPos, snd startPos)]\<rparr>"

definition getQValues :: "QLearningAgent \<Rightarrow> string \<Rightarrow> QTableEntry option" where
  "getQValues ag stateKey = map_of (qTable ag) stateKey"

definition getStatesExplored :: "QLearningAgent \<Rightarrow> nat" where
  "getStatesExplored ag = length (qTable ag)"

definition getTotalQValues :: "QLearningAgent \<Rightarrow> nat" where
  "getTotalQValues ag = fold (\<lambda>(stateKey, qValues) total. total + length qValues) (qTable ag) 0"

definition getMaxQValue :: "QLearningAgent \<Rightarrow> real" where
  "getMaxQValue ag =
     fold (\<lambda>(stateKey, qValues) maxQ.
             let localMax = Math_max (map snd qValues)
             in if localMax > maxQ then localMax else maxQ)
          (qTable ag) 0"

definition updateParameters ::
  "QLearningAgent \<Rightarrow> real option \<Rightarrow> real option \<Rightarrow> real option \<Rightarrow> QLearningAgent" where
  "updateParameters ag lr df er =
     (let ag1 = (case lr of Some v \<Rightarrow> ag\<lparr>learningRate := v\<rparr> | None \<Rightarrow> ag);
          ag2 = (case df of Some v \<Rightarrow> ag1\<lparr>discountFactor := v\<rparr> | None \<Rightarrow> ag1)
      in (case er of Some v \<Rightarrow> ag2\<lparr>explorationRate := v\<rparr> | None \<Rightarrow> ag2))"

definition exportQTable :: "QLearningAgent \<Rightarrow> (string \<times> QTableEntry) list" where
  "exportQTable ag = fold (\<lambda>(stateKey, qValues) exported. AList.update stateKey qValues exported) (qTable ag) []"

definition reset :: "QLearningAgent \<Rightarrow> QLearningAgent" where
  "reset ag = ag\<lparr>qTable := []\<rparr>"

section \<open>The maze generator (MazeGenerator)\<close>

text \<open>
  The arrays \<open>maze\<close> and \<open>visited\<close> are lists of rows. \<open>cell m x y\<close> reads \<open>m[y][x]\<close> and
  \<open>set_cell m x y v\<close> is the assignment \<open>m[y][x] = v\<close>. The generator builds both arrays with
  \<open>size\<close> rows of \<open>size\<close> cells and touches them only at positions that
  \<open>isValidPosition\<close> accepts, at the start and the goal, or inside the bounds of its loops.
\<close>

definition cell :: "'a list list \<Rightarrow> int \<Rightarrow> int \<Rightarrow> 'a" where
  "cell m x y = m ! nat y ! nat x"

definition set_cell :: "'a list list \<Rightarrow> int \<Rightarrow> int \<Rightarrow> 'a \<Rightarrow> 'a list list" where
  "set_cell m x y v = m[nat y := (m ! nat y)[nat x := v]]"

record MazeGenerator =
  gen_maze :: grid
  gen_size :: int
  gen_wallDensity :: real
  gen_startPosition :: position
  gen_goalPosition :: position

definition startPosition :: position where
  "startPosition = (0, 0)"

definition goalPosition :: "int \<Rightarrow> position" where
  "goalPosition sz = (sz - 1, sz - 1)"

text \<open>Up, right, down, left, as \<open>(dx, dy)\<close>.\<close>

definition directions :: "(int \<times> int) list" where
  "directions = [(0, - 1), (1, 0), (0, 1), (- 1, 0)]"

definition isValidPosition :: "int \<Rightarrow> int \<Rightarrow> int \<Rightarrow> bool" where
  "isValidPosition sz x y \<longleftrightarrow> x \<ge> 0 \<and> x < sz \<and> y \<ge> 0 \<and> y < sz"

subsection \<open>Carving: the do-while loop of generateMaze\<close>

record carve_state =
  cs_maze :: grid
  cs_visited :: "bool list list"
  cs_stack :: "position list"
  cs_currentX :: int
  cs_currentY :: int
  cs_rng :: nat

text \<open>The unvisited cells two steps away, each with the wall cell in between.\<close>

definition unvisited_neighbors ::
  "int \<Rightarrow> bool list list \<Rightarrow> int \<Rightarrow> int \<Rightarrow> (int \<times> int \<times> int \<times> int) list" where
  "unvisited_neighbors sz visited currentX currentY =
     fold (\<lambda>(dx, dy) neighbors.
             let neighborX = currentX + dx * 2;
                 neighborY = currentY + dy * 2;
                 wallX = currentX + dx;
                 wallY = currentY + dy
             in if isValidPosition sz neighborX neighborY \<and> \<not> cell visited neighborX neighborY
                then neighbors @ [(neighborX, neighborY, wallX, wallY)]
                else neighbors)
          directions []"

text \<open>The loop body. The stack grows at its end (\<open>push\<close>) and shrinks there (\<open>pop\<close>).\<close>

definition carve_step :: "int \<Rightarrow> random_source \<Rightarrow> carve_state \<Rightarrow> carve_state" where
  "carve_step sz rnd st =
     (let neighbors = unvisited_neighbors sz (cs_visited st) (cs_currentX st) (cs_currentY st)
      in if length neighbors > 0
         then
           (let randomNeighbor = neighbors ! nat \<lfloor>rnd (cs_rng st) * real (length neighbors)\<rfloor>;
                (x, y, wallX, wallY) = randomNeighbor
            in \<lparr>cs_maze = set_cell (set_cell (cs_maze st) wallX wallY 0) x y 0,
                cs_visited = set_cell (cs_visited st) x y True,
                cs_stack = cs_stack st @ [(cs_currentX st, cs_currentY st)],
                cs_currentX = x,
                cs_currentY = y,
                cs_rng = cs_rng st + 1\<rparr>)
         else if length (cs_stack st) > 0
         then st\<lparr>cs_stack := butlast (cs_stack st),
                 cs_currentX := fst (last (cs_stack st)),
                 cs_currentY := snd (last (cs_stack st))\<rparr>
         else st)"

partial_function (option) carve_loop :: "int \<Rightarrow> random_source \<Rightarrow> carve_state \<Rightarrow> carve_state option" where
  "carve_loop sz rnd st =
     (if length (cs_stack (carve_step sz rnd st)) > 0
      then carve_loop sz rnd (carve_step sz rnd st)
      else Some (carve_step sz rnd st))"

declare carve_loop.simps [code]

subsection \<open>The passes after carving\<close>

definition countAdjacentPaths :: "int \<Rightarrow> grid \<Rightarrow> int \<Rightarrow> int \<Rightarrow> nat" where
  "countAdjacentPaths sz maze x y =
     fold (\<lambda>(dx, dy) count.
             let newX = x + dx; newY = y + dy
             in if isValidPosition sz newX newY \<and> cell maze newX newY = 0
                then count + 1 else count)
          directions 0"

text \<open>
  One cell of the wall-density pass. \<open>Math.random()\<close> is the left operand of \<open>&&\<close>, so a
  draw is used for every cell that is not skipped.
\<close>

definition density_cell ::
  "int \<Rightarrow> real \<Rightarrow> random_source \<Rightarrow> int \<Rightarrow> int \<Rightarrow> grid \<times> nat \<Rightarrow> grid \<times> nat" where
  "density_cell sz removalProbability rnd x y s =
     (let maze = fst s; k = snd s
      in if cell maze x y = 0 then s
         else if (\<bar>x - fst startPosition\<bar> \<le> 2 \<and> \<bar>y - snd startPosition\<bar> \<le> 2)
               \<or> (\<bar>x - fst (goalPosition sz)\<bar> \<le> 2 \<and> \<bar>y - snd (goalPosition sz)\<bar> \<le> 2)
         then s
         else
           (let adjacentPaths = countAdjacentPaths sz maze x y
            in if rnd k < removalProbability \<and> adjacentPaths < 3
               then (set_cell maze x y 0, k + 1)
               else (maze, k + 1)))"

definition applyWallDensityModification ::
  "int \<Rightarrow> real \<Rightarrow> random_source \<Rightarrow> grid \<times> nat \<Rightarrow> grid \<times> nat" where
  "applyWallDensityModification sz wallDensity rnd s =
     (let removalProbability = max (1 / 10) ((1 - wallDensity) * (3 / 10))
      in fold (\<lambda>y s. fold (\<lambda>x s. density_cell sz removalProbability rnd x y s) [1..sz - 2] s)
              [1..sz - 2] s)"

definition connectivity_step :: "int \<Rightarrow> random_source \<Rightarrow> grid \<times> nat \<Rightarrow> grid \<times> nat" where
  "connectivity_step sz rnd s =
     (let maze = fst s; k = snd s;
          x = \<lfloor>rnd k * real_of_int (sz - 2)\<rfloor> + 1;
          y = \<lfloor>rnd (k + 1) * real_of_int (sz - 2)\<rfloor> + 1
      in if cell maze x y = 1 \<and> countAdjacentPaths sz maze x y \<ge> 2
         then (set_cell maze x y 0, k + 2)
         else (maze, k + 2))"

definition ensureConnectivity :: "int \<Rightarrow> random_source \<Rightarrow> grid \<times> nat \<Rightarrow> grid \<times> nat" where
  "ensureConnectivity sz rnd s =
     (let numConnections = \<lfloor>real_of_int sz * (1 / 10)\<rfloor>
      in fold (\<lambda>i s. connectivity_step sz rnd s) [0..<nat numConnections] s)"

subsection \<open>hasPath: breadth-first search\<close>

definition hasPath_visit ::
  "int \<Rightarrow> grid \<Rightarrow> position \<Rightarrow> int \<times> int \<Rightarrow> bool list list \<times> position list
     \<Rightarrow> bool list list \<times> position list" where
  "hasPath_visit sz maze current dir s =
     (let visited = fst s; queue = snd s;
          newX = fst current + fst dir;
          newY = snd current + snd dir
      in if isValidPosition sz newX newY \<and> \<not> cell visited newX newY \<and> cell maze newX newY = 0
         then (set_cell visited newX newY True, queue @ [(newX, newY)])
         else s)"

partial_function (option) hasPath_loop ::
  "int \<Rightarrow> grid \<Rightarrow> bool list list \<times> position list \<Rightarrow> bool option" where
  "hasPath_loop sz maze s =
     (case snd s of
        [] \<Rightarrow> Some False
      | current # queue \<Rightarrow>
          if fst current = fst (goalPosition sz) \<and> snd current = snd (goalPosition sz)
          then Some True
          else hasPath_loop sz maze
                 (fold (hasPath_visit sz maze current) directions (fst s, queue)))"

declare hasPath_loop.simps [code]

definition hasPath :: "int \<Rightarrow> grid \<Rightarrow> bool option" where
  "hasPath sz maze =
     hasPath_loop sz maze
       (set_cell (replicate (nat sz) (replicate (nat sz) False))
          (fst startPosition) (snd startPosition) True,
        [startPosition])"

subsection \<open>createPathToGoal and generateMaze\<close>

function carve_horizontal :: "int \<Rightarrow> grid \<Rightarrow> int \<Rightarrow> int \<Rightarrow> grid \<times> int" where
  "carve_horizontal goalX maze x y =
     (if x < goalX then carve_horizontal goalX (set_cell maze x y 0) (x + 1) y else (maze, x))"
  by pat_completeness auto
termination
  by (relation "measure (\<lambda>(goalX, maze, x, y). nat (goalX - x))") auto

function carve_vertical :: "int \<Rightarrow> grid \<Rightarrow> int \<Rightarrow> int \<Rightarrow> grid \<times> int" where
  "carve_vertical goalY maze x y =
     (if y < goalY then carve_vertical goalY (set_cell maze x y 0) x (y + 1) else (maze, y))"
  by pat_completeness auto
termination
  by (relation "measure (\<lambda>(goalY, maze, x, y). nat (goalY - y))") auto

declare carve_horizontal.simps [simp del] carve_vertical.simps [simp del]

definition createPathToGoal :: "int \<Rightarrow> grid \<Rightarrow> grid" where
  "createPathToGoal sz maze =
     (let x = fst startPosition; y = snd startPosition;
          (maze1, x1) = carve_horizontal (fst (goalPosition sz)) maze x y;
          (maze2, y1) = carve_vertical (snd (goalPosition sz)) maze1 x1 y
      in set_cell maze2 (fst (goalPosition sz)) (snd (goalPosition sz)) 0)"

text \<open>
  \<open>generateMaze\<close>, with the index of the next draw. \<open>None\<close> stands for a loop that does
  not end.
\<close>

definition generateMaze :: "int \<Rightarrow> real \<Rightarrow> random_source \<Rightarrow> nat \<Rightarrow> (grid \<times> nat) option" where
  "generateMaze sz wallDensity rnd k =
     (let maze = replicate (nat sz) (replicate (nat sz) 1);
          visited = replicate (nat sz) (replicate (nat sz) False);
          currentX = fst startPosition;
          currentY = snd startPosition
      in case carve_loop sz rnd
                \<lparr>cs_maze = set_cell maze currentX currentY 0,
                 cs_visited = set_cell visited currentX currentY True,
                 cs_stack = [], cs_currentX = currentX, cs_currentY = currentY, cs_rng = k\<rparr> of
           None \<Rightarrow> None
         | Some st \<Rightarrow>
             (let s1 = applyWallDensityModification sz wallDensity rnd (cs_maze st, cs_rng st);
                  maze2 = set_cell (fst s1) (fst startPosition) (snd startPosition) 0;
                  maze3 = set_cell maze2 (fst (goalPosition sz)) (snd (goalPosition sz)) 0;
                  s4 = ensureConnectivity sz rnd (maze3, snd s1)
              in case hasPath sz (fst s4) of
                   None \<Rightarrow> None
                 | Some found \<Rightarrow>
                     if \<not> found then Some (createPathToGoal sz (fst s4), snd s4)
                     else Some s4))"

text \<open>
  The constructor. \<open>Array(size)\<close> raises a RangeError for a negative size, and for size 0
  the assignment \<open>visited[0][0] = true\<close> raises a TypeError, \<open>visited[0]\<close> being undefined.
\<close>

definition new_MazeGenerator ::
  "int \<Rightarrow> real \<Rightarrow> random_source \<Rightarrow> nat \<Rightarrow> (js_error + MazeGenerator \<times> nat) option" where
  "new_MazeGenerator sz wallDensity rnd k =
     (if sz < 0 then Some (Inl RangeError)
      else if sz = 0 then Some (Inl TypeError)
      else (case generateMaze sz wallDensity rnd k of
              None \<Rightarrow> None
            | Some (maze, k') \<Rightarrow>
                Some (Inr (\<lparr>gen_maze = maze, gen_size = sz, gen_wallDensity = wallDensity,
                            gen_startPosition = startPosition,
                            gen_goalPosition = goalPosition sz\<rparr>, k'))))"

definition getMaze :: "MazeGenerator \<Rightarrow> grid" where
  "getMaze g = gen_maze g"

definition isWall :: "MazeGenerator \<Rightarrow> int \<Rightarrow> int \<Rightarrow> bool" where
  "isWall g x y =
     (if \<not> isValidPosition (gen_size g) x y then True else cell (gen_maze g) x y = 1)"

definition isGoal :: "MazeGenerator \<Rightarrow> int \<Rightarrow> int \<Rightarrow> bool" where
  "isGoal g x y \<longleftrightarrow> x = fst (gen_goalPosition g) \<and> y = snd (gen_goalPosition g)"

section \<open>Notions used to state the properties\<close>

definition entry_complete :: "QTableEntry \<Rightarrow> bool" where
  "entry_complete qValues \<longleftrightarrow> map fst qValues = actions"

definition table_complete :: "QLearningAgent \<Rightarrow> bool" where
  "table_complete ag \<longleftrightarrow>
     distinct (map fst (qTable ag)) \<and> list_all (\<lambda>(stateKey, qValues). entry_complete qValues) (qTable ag)"

definition qvalue :: "QLearningAgent \<Rightarrow> string \<Rightarrow> action \<Rightarrow> real" where
  "qvalue ag stateKey a =
     (case getQValues ag stateKey of None \<Rightarrow> 0 | Some qValues \<Rightarrow> entry_get qValues a)"

definition first_maximal :: "(action \<Rightarrow> real) \<Rightarrow> action" where
  "first_maximal q = hd (filter (\<lambda>a. q a = Max (q ` set actions)) actions)"

inductive agent_reachable :: "QLearningAgent \<Rightarrow> bool" where
  reach_new: "agent_reachable (new_QLearningAgent n lr df er)"
| reach_init: "agent_reachable ag \<Longrightarrow> agent_reachable (initializeQValues ag stateKey)"
| reach_choose: "agent_reachable ag \<Longrightarrow> chooseAction ag x y rnd k = (a, ag', k') \<Longrightarrow> agent_reachable ag'"
| reach_update: "agent_reachable ag \<Longrightarrow> agent_reachable (updateQValue ag state a reward nextState)"
| reach_episode: "agent_reachable ag \<Longrightarrow> runEpisode ag maze startPos goalPos maxSteps rnd k = Inr (res, ag', k')
     \<Longrightarrow> agent_reachable ag'"
| reach_params: "agent_reachable ag \<Longrightarrow> agent_reachable (updateParameters ag lr df er)"
| reach_reset: "agent_reachable ag \<Longrightarrow> agent_reachable (reset ag)"

text \<open>The state after \<open>n\<close> passes through the loop body of \<open>runEpisode\<close>.\<close>

fun episode_iterations ::
  "nat \<Rightarrow> grid \<Rightarrow> position \<Rightarrow> random_source \<Rightarrow> episode_state \<Rightarrow> js_error + episode_state" where
  "episode_iterations 0 maze goalPos rnd st = Inr st"
| "episode_iterations (Suc n) maze goalPos rnd st =
     (case episode_iteration maze goalPos rnd st of
        Inl e \<Rightarrow> Inl e
      | Inr st' \<Rightarrow> episode_iterations n maze goalPos rnd st')"

text \<open>The variables of \<open>runEpisode\<close> before its loop.\<close>

definition episode_start :: "QLearningAgent \<Rightarrow> position \<Rightarrow> nat \<Rightarrow> episode_state" where
  "episode_start ag startPos k =
     \<lparr>es_agent = ag, es_rng = k, es_x = fst startPos, es_y = snd startPos, es_steps = 0,
      es_totalReward = 0, es_path = [(fst startPos, snd startPos)]\<rparr>"

text \<open>A square array: \<open>sz\<close> rows of \<open>sz\<close> cells.\<close>

definition dims :: "int \<Rightarrow> 'a list list \<Rightarrow> bool" where
  "dims sz m \<longleftrightarrow> length m = nat sz \<and> (\<forall>row \<in> set m. length row = nat sz)"

text \<open>
  The cells that a walk from the start reaches by steps in the four directions, each step
  onto a cell inside the grid that is open (0).
\<close>

inductive open_reach :: "int \<Rightarrow> grid \<Rightarrow> position \<Rightarrow> bool" for sz :: int and maze :: grid where
  reach_start: "open_reach sz maze startPosition"
| reach_step: "open_reach sz maze (x, y) \<Longrightarrow> (dx, dy) \<in> set directions \<Longrightarrow>
     isValidPosition sz (x + dx) (y + dy) \<Longrightarrow> cell maze (x + dx) (y + dy) = 0 \<Longrightarrow>
     open_reach sz maze (x + dx, y + dy)"

text \<open>The contract of \<open>Math.random()\<close>: every draw is in [0, 1).\<close>

definition unit_draws :: "random_source \<Rightarrow> bool" where
  "unit_draws rnd \<longleftrightarrow> (\<forall>i. 0 \<le> rnd i \<and> rnd i < 1)"

text \<open>The cells inside the grid that an array of marks does not mark, and those it marks.\<close>

definition unmarked :: "int \<Rightarrow> bool list list \<Rightarrow> position set" where
  "unmarked sz visited = {(x, y). isValidPosition sz x y \<and> \<not> cell visited x y}"

definition marked :: "int \<Rightarrow> bool list list \<Rightarrow> position set" where
  "marked sz visited = {(x, y). isValidPosition sz x y \<and> cell visited x y}"

text \<open>
  The invariants of the breadth-first search. A marked cell that has left the queue is not
  the goal and is closed: its open neighbours inside the grid are marked. While the
  neighbours of \<open>current\<close> are visited, \<open>current\<close> is closed for the directions done so far,
  and the unmarked cells and the queue together keep their number.
\<close>

definition closed_cell :: "int \<Rightarrow> grid \<Rightarrow> bool list list \<Rightarrow> position \<Rightarrow> bool" where
  "closed_cell sz maze visited p \<longleftrightarrow>
     (\<forall>d \<in> set directions.
        isValidPosition sz (fst p + fst d) (snd p + snd d)
        \<and> cell maze (fst p + fst d) (snd p + snd d) = 0
        \<longrightarrow> cell visited (fst p + fst d) (snd p + snd d))"

definition bfs_inv :: "int \<Rightarrow> grid \<Rightarrow> bool list list \<times> position list \<Rightarrow> bool" where
  "bfs_inv sz maze s \<longleftrightarrow>
     dims sz (fst s)
     \<and> (\<forall>p \<in> set (snd s). p \<in> marked sz (fst s) \<and> open_reach sz maze p)
     \<and> (\<forall>p \<in> marked sz (fst s) - set (snd s).
          p \<noteq> goalPosition sz \<and> closed_cell sz maze (fst s) p)
     \<and> startPosition \<in> marked sz (fst s)"

definition bfs_mid ::
  "int \<Rightarrow> grid \<Rightarrow> position \<Rightarrow> (int \<times> int) set \<Rightarrow> nat \<Rightarrow> bool list list \<times> position list \<Rightarrow> bool" where
  "bfs_mid sz maze current D N s \<longleftrightarrow>
     dims sz (fst s)
     \<and> (\<forall>p \<in> set (snd s). p \<in> marked sz (fst s) \<and> open_reach sz maze p)
     \<and> (\<forall>p \<in> marked sz (fst s) - set (snd s) - {current}.
          p \<noteq> goalPosition sz \<and> closed_cell sz maze (fst s) p)
     \<and> startPosition \<in> marked sz (fst s)
     \<and> current \<in> marked sz (fst s) \<and> open_reach sz maze current \<and> current \<noteq> goalPosition sz
     \<and> (\<forall>d \<in> D.
          isValidPosition sz (fst current + fst d) (snd current + snd d)
          \<and> cell maze (fst current + fst d) (snd current + snd d) = 0
          \<longrightarrow> cell (fst s) (fst current + fst d) (snd current + snd d))
     \<and> card (unmarked sz (fst s)) + length (snd s) = N"

text \<open>
  A walk of open cells from the start: every cell is inside the grid and open, and each
  cell is one step in one of the four directions from the cell before it.
\<close>

definition open_path :: "int \<Rightarrow> grid \<Rightarrow> position list \<Rightarrow> bool" where
  "open_path sz maze ps \<longleftrightarrow>
     ps \<noteq> [] \<and> hd ps = startPosition
     \<and> list_all (\<lambda>p. isValidPosition sz (fst p) (snd p) \<and> cell maze (fst p) (snd p) = 0) ps
     \<and> (\<forall>i. Suc i < length ps \<longrightarrow>
          (fst (ps ! Suc i) - fst (ps ! i), snd (ps ! Suc i) - snd (ps ! i)) \<in> set directions)"

section \<open>Properties of the agent\<close>

lemma fresh_entry:
  "fold (\<lambda>a qValues. AList.update a 0 qValues) actions [] =
     [(ActUp, 0), (ActRight, 0), (ActDown, 0), (ActLeft, 0)]"
  by (simp add: actions_def)

lemma action_in_actions: "a \<in> set actions"
  by (cases a) (simp_all add: actions_def)

lemma map_fst_update_present:
  "k \<in> fst ` set al \<Longrightarrow> map fst (AList.update k v al) = map fst al"
  by (induction al) auto

lemma update_absent: "k \<notin> fst ` set al \<Longrightarrow> AList.update k v al = al @ [(k, v)]"
  by (induction al) auto

lemma list_all_update:
  "list_all P al \<Longrightarrow> P (k, v) \<Longrightarrow> list_all P (AList.update k v al)"
  by (induction al) auto

lemma entry_complete_update:
  "entry_complete qValues \<Longrightarrow> entry_complete (AList.update a v qValues)"
proof -
  assume c: "entry_complete qValues"
  then have "a \<in> fst ` set qValues"
    using action_in_actions [of a] by (metis entry_complete_def set_map)
  then show ?thesis
    using c by (simp add: entry_complete_def map_fst_update_present)
qed

lemma entry_complete_fresh:
  "entry_complete (fold (\<lambda>a qValues. AList.update a 0 qValues) actions [])"
  by (simp add: entry_complete_def actions_def)

lemma table_complete_initialize:
  "table_complete ag \<Longrightarrow> table_complete (initializeQValues ag stateKey)"
  unfolding table_complete_def initializeQValues_def
  by (auto simp: distinct_update intro!: list_all_update entry_complete_fresh)

lemma initialize_present:
  "map_of (qTable (initializeQValues ag stateKey)) stateKey \<noteq> None"
  by (simp add: initializeQValues_def update_conv')

lemma table_complete_lookup:
  "table_complete ag \<Longrightarrow> map_of (qTable ag) k = Some e \<Longrightarrow> entry_complete e"
  unfolding table_complete_def list_all_iff by (auto dest: map_of_SomeD)

lemma table_complete_updateQValue:
  "table_complete ag \<Longrightarrow> table_complete (updateQValue ag state a reward nextState)"
proof -
  assume c: "table_complete ag"
  define ag2 where "ag2 = initializeQValues (initializeQValues ag state) nextState"
  have c2: "table_complete ag2"
    unfolding ag2_def by (intro table_complete_initialize c)
  have "map_of (qTable ag2) state \<noteq> None"
    unfolding ag2_def using initialize_present [of ag state]
    by (auto simp: initializeQValues_def update_conv')
  then obtain e where e: "map_of (qTable ag2) state = Some e" by auto
  then have "entry_complete e" using c2 table_complete_lookup by blast
  then have "entry_complete (AList.update a v e)" for v by (rule entry_complete_update)
  then show ?thesis
    using c2 e unfolding updateQValue_def Let_def ag2_def [symmetric] table_complete_def table_get_def
    by (auto simp: distinct_update intro!: list_all_update)
qed

lemma chooseAction_agent:
  "chooseAction ag x y rnd k = (a, ag', k') \<Longrightarrow> ag' = initializeQValues ag (getStateKey x y)"
  by (auto simp: chooseAction_def Let_def split: if_splits)

lemma table_complete_chooseAction:
  "table_complete ag \<Longrightarrow> chooseAction ag x y rnd k = (a, ag', k') \<Longrightarrow> table_complete ag'"
  by (auto dest!: chooseAction_agent intro: table_complete_initialize)

lemma table_complete_iteration:
  "table_complete (es_agent st) \<Longrightarrow> episode_iteration maze goalPos rnd st = Inr st'
     \<Longrightarrow> table_complete (es_agent st')"
  unfolding episode_iteration_def Let_def
  by (auto split: prod.splits sum.splits
           intro!: table_complete_updateQValue elim: table_complete_chooseAction)

lemma table_complete_loop:
  "table_complete (es_agent st) \<Longrightarrow> runEpisode_loop maze goalPos maxSteps rnd st = Inr (res, ag', k')
     \<Longrightarrow> table_complete ag'"
proof (induction maze goalPos maxSteps rnd st rule: runEpisode_loop.induct)
  case (1 maze goalPos maxSteps rnd st)
  note unf = runEpisode_loop.simps [of maze goalPos maxSteps rnd st]
  show ?case
  proof (cases "es_steps st < maxSteps")
    case False
    with "1.prems" show ?thesis
      by (simp add: unf episode_result_def)
  next
    case True
    with "1.prems" obtain st' where it: "episode_iteration maze goalPos rnd st = Inr st'"
      by (auto simp: unf split: sum.splits)
    have c': "table_complete (es_agent st')"
      using "1.prems"(1) it by (rule table_complete_iteration)
    show ?thesis
    proof (cases "es_x st' = fst goalPos \<and> es_y st' = snd goalPos")
      case True
      with \<open>es_steps st < maxSteps\<close> it "1.prems"(2) c' show ?thesis
        by (simp add: unf episode_result_def)
    next
      case False
      with \<open>es_steps st < maxSteps\<close> it "1.prems"(2) c' "1.IH" [OF \<open>es_steps st < maxSteps\<close> it] show ?thesis
        by (simp add: unf)
    qed
  qed
qed

lemma reachable_complete: "agent_reachable ag \<Longrightarrow> table_complete ag"
proof (induction rule: agent_reachable.induct)
  case (reach_new n lr df er)
  show ?case by (simp add: table_complete_def new_QLearningAgent_def)
next
  case (reach_episode ag maze startPos goalPos maxSteps rnd k res ag' k')
  then show ?case unfolding runEpisode_def by (auto elim!: table_complete_loop [rotated])
next
  case (reach_params ag lr df er)
  then show ?case by (auto simp: table_complete_def updateParameters_def Let_def split: option.splits)
next
  case (reach_reset ag)
  show ?case by (simp add: table_complete_def reset_def)
qed (auto intro: table_complete_initialize table_complete_updateQValue table_complete_chooseAction)

lemma total_fold:
  "list_all (\<lambda>(k, e). entry_complete e) t \<Longrightarrow>
     fold (\<lambda>(stateKey, qValues) total. total + length qValues) t n = n + 4 * length t"
proof (induction t arbitrary: n)
  case Nil
  show ?case by simp
next
  case (Cons p t)
  obtain k e where p: "p = (k, e)" by (cases p)
  with Cons.prems have "length e = 4"
    by (auto simp: entry_complete_def actions_def dest!: arg_cong [where f = length])
  with Cons p show ?case by simp
qed

lemma entry_complete_cases:
  "entry_complete e \<Longrightarrow>
     \<exists>v1 v2 v3 v4. e = [(ActUp, v1), (ActRight, v2), (ActDown, v3), (ActLeft, v4)]"
  by (auto simp: entry_complete_def actions_def map_eq_Cons_conv)

lemma Math_max_complete:
  "entry_complete e \<Longrightarrow> Math_max (map snd e) = Max (entry_get e ` set actions)"
  by (auto dest!: entry_complete_cases simp: Math_max_def entry_get_def actions_def max.commute max.left_commute)

lemma initialize_lookup:
  "map_of (qTable (initializeQValues ag k)) k' =
     (if k' = k \<and> map_of (qTable ag) k = None
      then Some [(ActUp, 0), (ActRight, 0), (ActDown, 0), (ActLeft, 0)]
      else map_of (qTable ag) k')"
  by (simp add: initializeQValues_def update_conv' fresh_entry)

lemma qvalue_initialize: "qvalue (initializeQValues ag k) k' a = qvalue ag k' a"
  by (cases a) (simp_all add: qvalue_def getQValues_def initialize_lookup entry_get_def)

lemma initialize_fields:
  "learningRate (initializeQValues ag k) = learningRate ag"
  "discountFactor (initializeQValues ag k) = discountFactor ag"
  "explorationRate (initializeQValues ag k) = explorationRate ag"
  "mazeSize (initializeQValues ag k) = mazeSize ag"
  by (simp_all add: initializeQValues_def)

lemma qvalue_present:
  "map_of (qTable ag) k = Some e \<Longrightarrow> qvalue ag k a = entry_get e a"
  by (simp add: qvalue_def getQValues_def)

lemma updateQValue_table:
  assumes "table_complete ag"
    and ag2_def: "ag2 = initializeQValues (initializeQValues ag state) nextState"
  shows "\<exists>e. map_of (qTable ag2) state = Some e \<and> entry_complete e \<and>
           qTable (updateQValue ag state a reward nextState) =
             AList.update state
               (AList.update a
                  (qvalue ag state a + learningRate ag *
                     (reward + discountFactor ag * Max (qvalue ag nextState ` set actions) - qvalue ag state a))
                  e)
               (qTable ag2)"
proof -
  have c2: "table_complete ag2"
    unfolding ag2_def by (intro table_complete_initialize assms(1))
  have "map_of (qTable ag2) state \<noteq> None"
    unfolding ag2_def by (simp add: initialize_lookup)
  then obtain e where e: "map_of (qTable ag2) state = Some e" by auto
  have ce: "entry_complete e" using c2 e by (rule table_complete_lookup)
  have "map_of (qTable ag2) nextState \<noteq> None"
    unfolding ag2_def by (simp add: initialize_lookup)
  then obtain e' where e': "map_of (qTable ag2) nextState = Some e'" by auto
  have ce': "entry_complete e'" using c2 e' by (rule table_complete_lookup)
  have q2: "qvalue ag2 k b = qvalue ag k b" for k b
    unfolding ag2_def by (simp add: qvalue_initialize)
  have cur: "entry_get e a = qvalue ag state a"
    using qvalue_present [OF e, of a] q2 by simp
  have "entry_get e' b = qvalue ag nextState b" for b
    using qvalue_present [OF e', of b] q2 by simp
  then have nxt: "Math_max (map snd e') = Max (qvalue ag nextState ` set actions)"
    using Math_max_complete [OF ce'] by (simp add: image_def)
  have flds: "learningRate ag2 = learningRate ag" "discountFactor ag2 = discountFactor ag"
    unfolding ag2_def by (simp_all add: initialize_fields)
  show ?thesis
    using e e' ce cur nxt flds
    unfolding updateQValue_def Let_def ag2_def [symmetric] table_get_def
    by simp
qed

lemma entry_get_update:
  "entry_get (AList.update a v e) b = (if b = a then v else entry_get e b)"
  by (simp add: entry_get_def update_conv')

lemma updateQValue_qvalue:
  assumes "table_complete ag"
  shows "qvalue (updateQValue ag state a reward nextState) k b =
           (if k = state \<and> b = a
            then qvalue ag state a + learningRate ag *
                   (reward + discountFactor ag * Max (qvalue ag nextState ` set actions) - qvalue ag state a)
            else qvalue ag k b)"
proof -
  define ag2 where "ag2 = initializeQValues (initializeQValues ag state) nextState"
  obtain e where e: "map_of (qTable ag2) state = Some e"
    and t: "qTable (updateQValue ag state a reward nextState) =
             AList.update state
               (AList.update a
                  (qvalue ag state a + learningRate ag *
                     (reward + discountFactor ag * Max (qvalue ag nextState ` set actions) - qvalue ag state a))
                  e)
               (qTable ag2)"
    using updateQValue_table [OF assms ag2_def, of a reward] by blast
  have q2: "qvalue ag2 k b = qvalue ag k b" for k b
    unfolding ag2_def by (simp add: qvalue_initialize)
  show ?thesis
  proof (cases "k = state")
    case True
    then show ?thesis
      using q2 [of state b] e
      by (simp add: qvalue_def getQValues_def t update_conv' entry_get_update)
  next
    case False
    then show ?thesis
      using q2 [of k b]
      by (simp add: qvalue_def getQValues_def t update_conv')
  qed
qed

lemma updateQValue_keys:
  assumes "table_complete ag"
  shows "fst ` set (qTable (updateQValue ag state a reward nextState)) =
           fst ` set (qTable ag) \<union> {state, nextState}"
proof -
  define ag2 where "ag2 = initializeQValues (initializeQValues ag state) nextState"
  obtain e where t: "qTable (updateQValue ag state a reward nextState) =
             AList.update state
               (AList.update a
                  (qvalue ag state a + learningRate ag *
                     (reward + discountFactor ag * Max (qvalue ag nextState ` set actions) - qvalue ag state a))
                  e)
               (qTable ag2)"
    using updateQValue_table [OF assms ag2_def, of a reward] by blast
  have "dom (map_of (qTable (updateQValue ag state a reward nextState))) =
          dom (map_of (qTable ag)) \<union> {state, nextState}"
    unfolding t ag2_def by (auto simp: update_conv' initialize_lookup split: if_splits)
  then show ?thesis by (simp add: dom_map_of_conv_image_fst)
qed

lemma fold_best_complete:
  assumes "entry_complete e"
  shows "fst (fold (\<lambda>a (bestAction, bestValue).
                      if entry_get e a > bestValue then (a, entry_get e a)
                      else (bestAction, bestValue))
             actions (actions ! 0, entry_get e (actions ! 0))) = first_maximal (entry_get e)"
proof -
  obtain v1 v2 v3 v4 where e: "e = [(ActUp, v1), (ActRight, v2), (ActDown, v3), (ActLeft, v4)]"
    using entry_complete_cases [OF assms] by blast
  show ?thesis
    unfolding e first_maximal_def actions_def entry_get_def
    by (auto simp: max_def)
qed


lemma first_maximal_max: "q b \<le> q (first_maximal q)"
  by (cases b) (auto simp: first_maximal_def actions_def max_def)

lemma first_maximal_first:
  "b \<in> set (takeWhile (\<lambda>c. c \<noteq> first_maximal q) actions) \<Longrightarrow> q b < q (first_maximal q)"
  by (auto simp: first_maximal_def actions_def max_def split: if_splits)

lemma chooseAction_exploit:
  assumes c: "table_complete ag" and e: "explorationRate ag \<le> rnd k"
  shows "chooseAction ag x y rnd k =
           (first_maximal (qvalue ag (getStateKey x y)), initializeQValues ag (getStateKey x y), k + 1)"
proof -
  define ag1 where "ag1 = initializeQValues ag (getStateKey x y)"
  have c1: "table_complete ag1" unfolding ag1_def using c by (rule table_complete_initialize)
  have "map_of (qTable ag1) (getStateKey x y) \<noteq> None"
    unfolding ag1_def by (simp add: initialize_lookup)
  then obtain en where en: "map_of (qTable ag1) (getStateKey x y) = Some en" by auto
  have cen: "entry_complete en" using c1 en by (rule table_complete_lookup)
  have "entry_get en b = qvalue ag (getStateKey x y) b" for b
    using qvalue_present [OF en, of b] unfolding ag1_def by (simp add: qvalue_initialize)
  then have q: "entry_get en = qvalue ag (getStateKey x y)" by (rule ext)
  have er: "\<not> rnd k < explorationRate ag1"
    using e unfolding ag1_def by (simp add: initialize_fields)
  have tg: "table_get ag1 (getStateKey x y) = en" by (simp add: table_get_def en)
  show ?thesis
    using er fold_best_complete [OF cen]
    unfolding chooseAction_def Let_def ag1_def [symmetric] tg q
    by simp
qed

lemma updateQValue_mazeSize: "mazeSize (updateQValue ag s a r s') = mazeSize ag"
  by (simp add: updateQValue_def Let_def initialize_fields)

lemma isValidMove_mazeSize:
  "mazeSize ag' = mazeSize ag \<Longrightarrow> isValidMove ag' x y maze = isValidMove ag x y maze"
  by (simp add: isValidMove_def)

lemma calculateReward_cases:
  "calculateReward ag x y newX newY maze goalX goalY =
     (case isValidMove ag newX newY maze of
        Inl e \<Rightarrow> Inl e
      | Inr valid \<Rightarrow> Inr (if \<not> valid then - 10 else if (newX, newY) = (goalX, goalY) then 100 else - 1))"
  by (simp add: calculateReward_def split: sum.splits)

lemma episode_iteration_eq:
  assumes "chooseAction (es_agent st) (es_x st) (es_y st) rnd (es_rng st) = (a, ag1, k1)"
    and "getNextPosition (es_x st) (es_y st) a = (nx, ny)"
    and "isValidMove ag1 nx ny maze = Inr valid"
    and "r = (if \<not> valid then - 10 else if (nx, ny) = goalPos then 100 else - 1)"
    and "p = (if valid then (nx, ny) else (es_x st, es_y st))"
  shows "episode_iteration maze goalPos rnd st =
          Inr \<lparr>es_agent = updateQValue ag1 (getStateKey (es_x st) (es_y st)) a r (getStateKey (fst p) (snd p)),
               es_rng = k1, es_x = fst p, es_y = snd p, es_steps = es_steps st + 1,
               es_totalReward = es_totalReward st + r, es_path = es_path st @ [p]\<rparr>"
  using assms by (cases goalPos) (simp add: episode_iteration_def Let_def calculateReward_cases)

lemma episode_iteration_unfold:
  assumes "episode_iteration maze goalPos rnd st = Inr st'"
  shows "\<exists>a ag1 k1 valid.
           chooseAction (es_agent st) (es_x st) (es_y st) rnd (es_rng st) = (a, ag1, k1)
         \<and> isValidMove (es_agent st) (fst (getNextPosition (es_x st) (es_y st) a))
              (snd (getNextPosition (es_x st) (es_y st) a)) maze = Inr valid
         \<and> (es_x st', es_y st') =
              (if valid then getNextPosition (es_x st) (es_y st) a else (es_x st, es_y st))
         \<and> es_totalReward st' = es_totalReward st +
              (if \<not> valid then - 10
               else if getNextPosition (es_x st) (es_y st) a = goalPos then 100 else - 1)
         \<and> es_agent st' =
              updateQValue ag1 (getStateKey (es_x st) (es_y st)) a
                (if \<not> valid then - 10
                 else if getNextPosition (es_x st) (es_y st) a = goalPos then 100 else - 1)
                (getStateKey (es_x st') (es_y st'))
         \<and> es_rng st' = k1
         \<and> es_steps st' = es_steps st + 1
         \<and> es_path st' = es_path st @ [(es_x st', es_y st')]"
proof -
  obtain a ag1 k1 where ch: "chooseAction (es_agent st) (es_x st) (es_y st) rnd (es_rng st) = (a, ag1, k1)"
    by (cases "chooseAction (es_agent st) (es_x st) (es_y st) rnd (es_rng st)") auto
  have ms: "mazeSize ag1 = mazeSize (es_agent st)"
    using chooseAction_agent [OF ch] by (simp add: initialize_fields)
  obtain nx ny where np: "getNextPosition (es_x st) (es_y st) a = (nx, ny)"
    by (cases "getNextPosition (es_x st) (es_y st) a") auto
  have "\<exists>valid. isValidMove ag1 nx ny maze = Inr valid"
  proof (cases "isValidMove ag1 nx ny maze")
    case (Inl e)
    then have "episode_iteration maze goalPos rnd st = Inl e"
      using ch np by (simp add: episode_iteration_def Let_def calculateReward_cases)
    with assms show ?thesis by simp
  next
    case (Inr valid)
    then show ?thesis by blast
  qed
  then obtain valid where v: "isValidMove ag1 nx ny maze = Inr valid" by blast
  define r :: real where
    "r = (if \<not> valid then - 10 else if (nx, ny) = goalPos then 100 else - 1)"
  define p where "p = (if valid then (nx, ny) else (es_x st, es_y st))"
  have st': "st' =
          \<lparr>es_agent = updateQValue ag1 (getStateKey (es_x st) (es_y st)) a r (getStateKey (fst p) (snd p)),
               es_rng = k1, es_x = fst p, es_y = snd p, es_steps = es_steps st + 1,
               es_totalReward = es_totalReward st + r, es_path = es_path st @ [p]\<rparr>"
    using episode_iteration_eq [OF ch np v r_def p_def] assms by simp
  have v': "isValidMove (es_agent st) nx ny maze = Inr valid"
    using v isValidMove_mazeSize [OF ms, of nx ny maze] by simp
  show ?thesis
    apply (rule exI [of _ a], rule exI [of _ ag1], rule exI [of _ k1], rule exI [of _ valid])
    using ch v' by (simp add: st' np r_def p_def)
qed

lemma episode_iteration_mazeSize:
  "episode_iteration maze goalPos rnd st = Inr st' \<Longrightarrow> mazeSize (es_agent st') = mazeSize (es_agent st)"
  by (auto dest!: episode_iteration_unfold chooseAction_agent simp: updateQValue_mazeSize initialize_fields)

lemma episode_iteration_returns:
  assumes "mazeSize (es_agent st) \<le> int (length maze)"
  shows "\<exists>st'. episode_iteration maze goalPos rnd st = Inr st'"
proof -
  obtain a ag1 k1 where ch: "chooseAction (es_agent st) (es_x st) (es_y st) rnd (es_rng st) = (a, ag1, k1)"
    by (cases "chooseAction (es_agent st) (es_x st) (es_y st) rnd (es_rng st)") auto
  have ms: "mazeSize ag1 = mazeSize (es_agent st)"
    using chooseAction_agent [OF ch] by (simp add: initialize_fields)
  have "\<exists>valid. isValidMove ag1 x y maze = Inr valid" for x y
    using assms ms by (auto simp: isValidMove_def js_index_def)
  then obtain valid where "isValidMove ag1 (fst (getNextPosition (es_x st) (es_y st) a))
      (snd (getNextPosition (es_x st) (es_y st) a)) maze = Inr valid"
    by blast
  then show ?thesis
    unfolding episode_iteration_def Let_def ch
    by (simp add: calculateReward_cases)
qed


lemma episode_iterations_step:
  "episode_iterations n maze goalPos rnd st = Inr st' \<Longrightarrow>
     mazeSize (es_agent st') = mazeSize (es_agent st) \<and> es_steps st' = es_steps st + int n"
proof (induction n arbitrary: st)
  case 0
  then show ?case by simp
next
  case (Suc n)
  then obtain st1 where 1: "episode_iteration maze goalPos rnd st = Inr st1"
    and 2: "episode_iterations n maze goalPos rnd st1 = Inr st'"
    by (auto split: sum.splits)
  from episode_iteration_unfold [OF 1] have "es_steps st1 = es_steps st + 1" by blast
  with Suc.IH [OF 2] episode_iteration_mazeSize [OF 1] show ?case by simp
qed

lemma episode_iterations_path:
  "episode_iterations n maze goalPos rnd st = Inr st' \<Longrightarrow>
     \<exists>q. es_path st' = es_path st @ q \<and> length q = n
        \<and> last ((es_x st, es_y st) # q) = (es_x st', es_y st')"
proof (induction n arbitrary: st)
  case 0
  then show ?case by simp
next
  case (Suc n)
  then obtain st1 where 1: "episode_iteration maze goalPos rnd st = Inr st1"
    and 2: "episode_iterations n maze goalPos rnd st1 = Inr st'"
    by (auto split: sum.splits)
  from episode_iteration_unfold [OF 1]
  have p1: "es_path st1 = es_path st @ [(es_x st1, es_y st1)]" by blast
  from Suc.IH [OF 2] obtain q where q: "es_path st' = es_path st1 @ q" "length q = n"
    "last ((es_x st1, es_y st1) # q) = (es_x st', es_y st')" by blast
  show ?case
    by (rule exI [of _ "(es_x st1, es_y st1) # q"]) (use p1 q in simp)
qed

lemma episode_iterations_valid:
  assumes "episode_iterations n maze goalPos rnd st = Inr st'"
    and "mazeSize (es_agent st) = mazeSize ag"
    and "\<forall>p \<in> set (es_path st). isValidMove ag (fst p) (snd p) maze = Inr True"
    and "isValidMove ag (es_x st) (es_y st) maze = Inr True"
  shows "(\<forall>p \<in> set (es_path st'). isValidMove ag (fst p) (snd p) maze = Inr True)
       \<and> isValidMove ag (es_x st') (es_y st') maze = Inr True"
  using assms
proof (induction n arbitrary: st)
  case 0
  then show ?case by simp
next
  case (Suc n)
  then obtain st1 where 1: "episode_iteration maze goalPos rnd st = Inr st1"
    and 2: "episode_iterations n maze goalPos rnd st1 = Inr st'"
    by (auto split: sum.splits)
  from episode_iteration_unfold [OF 1] obtain a valid where
    v: "isValidMove (es_agent st) (fst (getNextPosition (es_x st) (es_y st) a))
              (snd (getNextPosition (es_x st) (es_y st) a)) maze = Inr valid"
    and p: "(es_x st1, es_y st1) =
              (if valid then getNextPosition (es_x st) (es_y st) a else (es_x st, es_y st))"
    and p1: "es_path st1 = es_path st @ [(es_x st1, es_y st1)]"
    by blast
  have same: "isValidMove (es_agent st) x y maze = isValidMove ag x y maze" for x y
    using Suc.prems(2) by (rule isValidMove_mazeSize)
  have ok1: "isValidMove ag (es_x st1) (es_y st1) maze = Inr True"
  proof (cases valid)
    case True
    with p have "getNextPosition (es_x st) (es_y st) a = (es_x st1, es_y st1)" by simp
    with v True same show ?thesis by simp
  next
    case False
    with p Suc.prems(4) show ?thesis by simp
  qed
  have m1: "mazeSize (es_agent st1) = mazeSize ag"
    using episode_iteration_mazeSize [OF 1] Suc.prems(2) by simp
  have "\<forall>p \<in> set (es_path st1). isValidMove ag (fst p) (snd p) maze = Inr True"
    using Suc.prems(3) ok1 p1 by auto
  then show ?case using Suc.IH [OF 2 m1 _ ok1] by blast
qed

lemma runEpisode_loop_iterations:
  assumes "runEpisode_loop maze goalPos maxSteps rnd st = Inr out"
  shows "\<exists>n st' b. episode_iterations n maze goalPos rnd st = Inr st'
         \<and> out = episode_result b st'
         \<and> (b \<longleftrightarrow> 1 \<le> n \<and> (es_x st', es_y st') = goalPos)
         \<and> (\<forall>m s. 1 \<le> m \<and> m < n \<and> episode_iterations m maze goalPos rnd st = Inr s
               \<longrightarrow> (es_x s, es_y s) \<noteq> goalPos)
         \<and> (\<not> b \<longrightarrow> int n = max 0 (maxSteps - es_steps st))
         \<and> int n \<le> max 0 (maxSteps - es_steps st)"
  using assms
proof (induction maze goalPos maxSteps rnd st rule: runEpisode_loop.induct)
  case (1 maze goalPos maxSteps rnd st)
  note unf = runEpisode_loop.simps [of maze goalPos maxSteps rnd st]
  show ?case
  proof (cases "es_steps st < maxSteps")
    case False
    with "1.prems" have "out = episode_result False st" by (simp add: unf)
    with False show ?thesis
      by (intro exI [of _ 0] exI [of _ st] exI [of _ False]) simp
  next
    case lt: True
    with "1.prems" obtain st1 where it: "episode_iteration maze goalPos rnd st = Inr st1"
      by (auto simp: unf split: sum.splits)
    have s1: "es_steps st1 = es_steps st + 1"
      using episode_iteration_unfold [OF it] by blast
    show ?thesis
    proof (cases "es_x st1 = fst goalPos \<and> es_y st1 = snd goalPos")
      case True
      with lt it "1.prems" have "out = episode_result True st1" by (simp add: unf)
      moreover have "(es_x st1, es_y st1) = goalPos" using True by (cases goalPos) simp
      ultimately show ?thesis
        using lt it by (intro exI [of _ 1] exI [of _ st1] exI [of _ True]) simp
    next
      case False
      then have ng: "(es_x st1, es_y st1) \<noteq> goalPos" by (cases goalPos) auto
      from lt it False "1.prems" have "runEpisode_loop maze goalPos maxSteps rnd st1 = Inr out"
        by (auto simp: unf)
      from "1.IH" [OF lt it False this] obtain n st' b where
        a: "episode_iterations n maze goalPos rnd st1 = Inr st'"
        and b: "out = episode_result b st'"
        and c: "b \<longleftrightarrow> 1 \<le> n \<and> (es_x st', es_y st') = goalPos"
        and d: "\<forall>m s. 1 \<le> m \<and> m < n \<and> episode_iterations m maze goalPos rnd st1 = Inr s
               \<longrightarrow> (es_x s, es_y s) \<noteq> goalPos"
        and e: "\<not> b \<longrightarrow> int n = max 0 (maxSteps - es_steps st1)"
        and f: "int n \<le> max 0 (maxSteps - es_steps st1)"
        by blast
      have a': "episode_iterations (Suc n) maze goalPos rnd st = Inr st'"
        using it a by simp
      have c': "b \<longleftrightarrow> 1 \<le> Suc n \<and> (es_x st', es_y st') = goalPos"
      proof (cases n)
        case 0
        with a have "st' = st1" by simp
        with c 0 ng show ?thesis by simp
      next
        case (Suc k)
        with c show ?thesis by simp
      qed
      have d': "(es_x s, es_y s) \<noteq> goalPos"
        if "1 \<le> m" "m < Suc n" "episode_iterations m maze goalPos rnd st = Inr s" for m s
      proof (cases m)
        case 0
        with that show ?thesis by simp
      next
        case (Suc k)
        with that(3) it have k: "episode_iterations k maze goalPos rnd st1 = Inr s" by simp
        show ?thesis
        proof (cases k)
          case 0
          with k ng show ?thesis by simp
        next
          case (Suc j)
          with that(2) \<open>m = Suc k\<close> have "1 \<le> k \<and> k < n" by simp
          with d k show ?thesis by blast
        qed
      qed
      have e': "\<not> b \<longrightarrow> int (Suc n) = max 0 (maxSteps - es_steps st)"
        using e s1 lt by auto
      have f': "int (Suc n) \<le> max 0 (maxSteps - es_steps st)"
        using f s1 lt by auto
      show ?thesis
        using a' b c' d' e' f' by (intro exI [of _ "Suc n"] exI [of _ st'] exI [of _ b]) blast
    qed
  qed
qed

lemma episode_iterations_returns:
  "mazeSize (es_agent st) \<le> int (length maze) \<Longrightarrow>
     \<exists>st'. episode_iterations n maze goalPos rnd st = Inr st'"
proof (induction n arbitrary: st)
  case 0
  show ?case by simp
next
  case (Suc n)
  from episode_iteration_returns [OF Suc.prems] obtain st1 where
    1: "episode_iteration maze goalPos rnd st = Inr st1" by blast
  with Suc.prems episode_iteration_mazeSize [OF 1] Suc.IH [of st1] show ?case by simp
qed

lemma runEpisode_loop_returns:
  "mazeSize (es_agent st) \<le> int (length maze) \<Longrightarrow>
     \<exists>out. runEpisode_loop maze goalPos maxSteps rnd st = Inr out"
proof (induction maze goalPos maxSteps rnd st rule: runEpisode_loop.induct)
  case (1 maze goalPos maxSteps rnd st)
  note unf = runEpisode_loop.simps [of maze goalPos maxSteps rnd st]
  show ?case
  proof (cases "es_steps st < maxSteps")
    case False
    then show ?thesis by (simp add: unf episode_result_def)
  next
    case True
    from episode_iteration_returns [OF "1.prems"] obtain st1 where
      it: "episode_iteration maze goalPos rnd st = Inr st1" by blast
    show ?thesis
    proof (cases "es_x st1 = fst goalPos \<and> es_y st1 = snd goalPos")
      case True
      with \<open>es_steps st < maxSteps\<close> it show ?thesis by (simp add: unf episode_result_def)
    next
      case False
      have "mazeSize (es_agent st1) \<le> int (length maze)"
        using episode_iteration_mazeSize [OF it] "1.prems" by simp
      from "1.IH" [OF True it False this] True it False show ?thesis by (auto simp: unf)
    qed
  qed
qed

lemma isValidMove_True_iff:
  "isValidMove ag x y maze = Inr True \<longleftrightarrow>
     0 \<le> x \<and> x < mazeSize ag \<and> 0 \<le> y \<and> y < mazeSize ag
     \<and> (\<exists>row. js_index maze y = Some row \<and> js_index row x = Some 0)"
  by (auto simp: isValidMove_def split: option.splits)

lemma isValidMove_False_iff:
  "isValidMove ag x y maze = Inr False \<longleftrightarrow>
     \<not> (0 \<le> x \<and> x < mazeSize ag \<and> 0 \<le> y \<and> y < mazeSize ag)
     \<or> (\<exists>row. js_index maze y = Some row \<and> js_index row x \<noteq> Some 0)"
  by (auto simp: isValidMove_def split: option.splits)

lemma runEpisode_result:
  assumes "runEpisode ag maze startPos goalPos maxSteps rnd k = Inr (res, ag', k')"
  shows "\<exists>n st. episode_iterations n maze goalPos rnd (episode_start ag startPos k) = Inr st
         \<and> (res, ag', k') = episode_result (success res) st
         \<and> (success res \<longleftrightarrow> 1 \<le> n \<and> (es_x st, es_y st) = goalPos)
         \<and> (\<forall>m s. 1 \<le> m \<and> m < n
               \<and> episode_iterations m maze goalPos rnd (episode_start ag startPos k) = Inr s
               \<longrightarrow> (es_x s, es_y s) \<noteq> goalPos)
         \<and> (\<not> success res \<longrightarrow> int n = max 0 maxSteps)
         \<and> int n \<le> max 0 maxSteps
         \<and> steps res = int n
         \<and> length (path res) = n + 1
         \<and> hd (path res) = startPos
         \<and> finalPosition res = last (path res)"
proof -
  from assms have "runEpisode_loop maze goalPos maxSteps rnd (episode_start ag startPos k) = Inr (res, ag', k')"
    by (simp add: runEpisode_def episode_start_def)
  from runEpisode_loop_iterations [OF this] obtain n st b where
    a: "episode_iterations n maze goalPos rnd (episode_start ag startPos k) = Inr st"
    and b: "(res, ag', k') = episode_result b st"
    and c: "b \<longleftrightarrow> 1 \<le> n \<and> (es_x st, es_y st) = goalPos"
    and d: "\<forall>m s. 1 \<le> m \<and> m < n
               \<and> episode_iterations m maze goalPos rnd (episode_start ag startPos k) = Inr s
               \<longrightarrow> (es_x s, es_y s) \<noteq> goalPos"
    and e: "\<not> b \<longrightarrow> int n = max 0 (maxSteps - es_steps (episode_start ag startPos k))"
    and f: "int n \<le> max 0 (maxSteps - es_steps (episode_start ag startPos k))"
    by blast
  have sb: "success res = b" using b by (simp add: episode_result_def)
  have s0: "es_steps (episode_start ag startPos k) = 0" by (simp add: episode_start_def)
  from episode_iterations_step [OF a] have st: "steps res = int n"
    using b by (simp add: episode_result_def episode_start_def)
  from episode_iterations_path [OF a] obtain q where
    q: "es_path st = [startPos] @ q" "length q = n" "last (startPos # q) = (es_x st, es_y st)"
    by (auto simp: episode_start_def)
  have p: "path res = startPos # q" "finalPosition res = (es_x st, es_y st)"
    using b q by (simp_all add: episode_result_def)
  show ?thesis
    apply (rule exI [of _ n], rule exI [of _ st])
    using a b c d e f st p q by (simp add: sb s0)
qed

text \<open>
  What \<open>getMaxQValue\<close> returns for an agent that can arise: the maximum of 0 and all stored
  values.
\<close>

lemma Math_max_nonempty:
  assumes "vs \<noteq> []"
  shows "Math_max vs = Max (set vs)"
proof (cases vs)
  case Nil
  with assms show ?thesis by simp
next
  case (Cons a list)
  have "Max (set (a # list)) = fold max list a" by (rule Max.set_eq_fold)
  with Cons show ?thesis by (simp add: Math_max_def)
qed

lemma getMaxQValue_fold:
  assumes "list_all (\<lambda>(k, e). entry_complete e) t"
  shows "fold (\<lambda>(stateKey, qValues) maxQ.
             let localMax = Math_max (map snd qValues)
             in if localMax > maxQ then localMax else maxQ) t acc =
         Max (insert acc (snd ` (\<Union>(k, e) \<in> set t. set e)))"
  using assms
proof (induction t arbitrary: acc)
  case Nil
  show ?case by simp
next
  case (Cons p t)
  obtain k e where p: "p = (k, e)" by (cases p)
  from Cons.prems p have ce: "entry_complete e" and ct: "list_all (\<lambda>(k, e). entry_complete e) t"
    by simp_all
  from ce have ne: "e \<noteq> []" by (auto simp: entry_complete_def actions_def)
  then have lm: "Math_max (map snd e) = Max (snd ` set e)"
    using Math_max_nonempty [of "map snd e"] by simp
  define S where "S = snd ` (\<Union>(k, e) \<in> set t. set e)"
  define E where "E = snd ` set e"
  have fin: "finite S" "finite E" unfolding S_def E_def by (auto split: prod.splits)
  have ne': "E \<noteq> {}" unfolding E_def using ne by simp
  have eq: "Max (insert (max acc (Max E)) S) = Max (insert acc (E \<union> S))"
  proof (cases "S = {}")
    case True
    then show ?thesis using fin(2) ne' by simp
  next
    case False
    have "Max (insert (max acc (Max E)) S) = max (max acc (Max E)) (Max S)"
      using fin(1) False by simp
    moreover have "Max (insert acc (E \<union> S)) = max acc (Max (E \<union> S))"
      using fin ne' by simp
    moreover have "Max (E \<union> S) = max (Max E) (Max S)"
      using fin ne' False by (simp add: Max_Un)
    ultimately show ?thesis by (simp add: max.assoc)
  qed
  have step: "(if acc < Max E then Max E else acc) = max acc (Max E)"
    by (simp add: max_def)
  have un: "snd ` (\<Union>(k, e) \<in> set (p # t). set e) = E \<union> S"
    unfolding S_def E_def p by (simp add: image_Un)
  have "fold (\<lambda>(stateKey, qValues) maxQ.
             let localMax = Math_max (map snd qValues)
             in if localMax > maxQ then localMax else maxQ) (p # t) acc =
        fold (\<lambda>(stateKey, qValues) maxQ.
             let localMax = Math_max (map snd qValues)
             in if localMax > maxQ then localMax else maxQ) t (max acc (Max E))"
    using step by (simp add: p lm E_def)
  also have "\<dots> = Max (insert (max acc (Max E)) S)"
    unfolding S_def by (rule Cons.IH [OF ct])
  also have "\<dots> = Max (insert acc (E \<union> S))" by (rule eq)
  finally show ?case by (simp only: un)
qed

lemma getMaxQValue_floor:
  assumes "agent_reachable ag"
  shows "getMaxQValue ag = Max (insert 0 (snd ` (\<Union>(k, e) \<in> set (qTable ag). set e)))"
  using reachable_complete [OF assms]
  by (simp add: getMaxQValue_def table_complete_def getMaxQValue_fold)

section \<open>The claims about the agent\<close>

text \<open>
  Claim C7. The agents that can arise are those built by the constructor and then changed by
  any sequence of \<open>initializeQValues\<close>, \<open>chooseAction\<close>, \<open>updateQValue\<close>, \<open>runEpisode\<close>,
  \<open>updateParameters\<close> and \<open>reset\<close> (\<open>agent_reachable\<close>). In every such agent the keys of
  the table are distinct, every entry has exactly the four actions up, right, down, left (in
  this order), an entry created for an unseen state holds 0 for all four, and
  \<open>getTotalQValues\<close> is four times \<open>getStatesExplored\<close>.
\<close>
theorem reachable_table_complete:
  assumes "agent_reachable ag"
  shows "distinct (map fst (qTable ag))
       \<and> (\<forall>(stateKey, qValues) \<in> set (qTable ag). map fst qValues = actions)
       \<and> (\<forall>stateKey. getQValues ag stateKey = None \<longrightarrow>
            getQValues (initializeQValues ag stateKey) stateKey =
              Some [(ActUp, 0), (ActRight, 0), (ActDown, 0), (ActLeft, 0)])
       \<and> getTotalQValues ag = 4 * getStatesExplored ag"
proof -
  have c: "table_complete ag" using assms by (rule reachable_complete)
  then have "getTotalQValues ag = 4 * getStatesExplored ag"
    by (simp add: getTotalQValues_def getStatesExplored_def table_complete_def total_fold)
  moreover have "\<forall>(stateKey, qValues) \<in> set (qTable ag). map fst qValues = actions"
    using c by (auto simp: table_complete_def list_all_iff entry_complete_def)
  ultimately show ?thesis
    using c by (simp add: table_complete_def getQValues_def initialize_lookup)
qed

theorem reachable_table_complete_witness:
  "agent_reachable (updateQValue (new_QLearningAgent 3 (1 / 10) (9 / 10) 0) ''0,0'' ActUp (- 10) ''0,1'')
   \<and> qTable (updateQValue (new_QLearningAgent 3 (1 / 10) (9 / 10) 0) ''0,0'' ActUp (- 10) ''0,1'') =
       [(''0,0'', [(ActUp, - 1), (ActRight, 0), (ActDown, 0), (ActLeft, 0)]),
        (''0,1'', [(ActUp, 0), (ActRight, 0), (ActDown, 0), (ActLeft, 0)])]
   \<and> getTotalQValues (updateQValue (new_QLearningAgent 3 (1 / 10) (9 / 10) 0) ''0,0'' ActUp (- 10) ''0,1'') =
       4 * getStatesExplored (updateQValue (new_QLearningAgent 3 (1 / 10) (9 / 10) 0) ''0,0'' ActUp (- 10) ''0,1'')
   \<and> getStatesExplored (updateQValue (new_QLearningAgent 3 (1 / 10) (9 / 10) 0) ''0,0'' ActUp (- 10) ''0,1'') = 2"
proof -
  let ?ag = "updateQValue (new_QLearningAgent 3 (1 / 10) (9 / 10) 0) ''0,0'' ActUp (- 10) ''0,1''"
  have r: "agent_reachable ?ag" by (intro reach_update reach_new)
  have t: "qTable ?ag =
       [(''0,0'', [(ActUp, - 1), (ActRight, 0), (ActDown, 0), (ActLeft, 0)]),
        (''0,1'', [(ActUp, 0), (ActRight, 0), (ActDown, 0), (ActLeft, 0)])]"
    by code_simp
  have n: "getStatesExplored ?ag = 2" by code_simp
  from reachable_table_complete [OF r] have "getTotalQValues ?ag = 4 * getStatesExplored ?ag"
    by blast
  with r t n show ?thesis by blast
qed

text \<open>
  Claim C4. \<open>qvalue ag s a\<close> reads \<open>Q(s, a)\<close> with the lazy initialisation (0 for a state
  that has no entry yet). For every agent that can arise, \<open>updateQValue\<close> sets \<open>Q(s, a)\<close> to
  \<open>Q(s, a) + \<alpha> (r + \<gamma> max\<^sub>a\<^sub>' Q(s', a') - Q(s, a))\<close>, read from the table before the call,
  and changes no other action value; afterwards the table has the keys it had and those of
  \<open>s\<close> and \<open>s'\<close>, each entry with all four actions. The other operations that write the table
  (\<open>initializeQValues\<close>, \<open>chooseAction\<close>) and \<open>updateParameters\<close> leave every entry as it is,
  and \<open>reset\<close> leaves no entry.
\<close>
theorem updateQValue_rule:
  assumes "agent_reachable ag"
  shows "qvalue (updateQValue ag state a reward nextState) state a =
           qvalue ag state a + learningRate ag *
             (reward + discountFactor ag * Max (qvalue ag nextState ` set actions) - qvalue ag state a)
       \<and> (\<forall>k b. (k, b) \<noteq> (state, a) \<longrightarrow>
            qvalue (updateQValue ag state a reward nextState) k b = qvalue ag k b)
       \<and> fst ` set (qTable (updateQValue ag state a reward nextState)) =
            fst ` set (qTable ag) \<union> {state, nextState}
       \<and> (\<forall>(k, qValues) \<in> set (qTable (updateQValue ag state a reward nextState)).
            map fst qValues = actions)
       \<and> (\<forall>k qValues. getQValues ag k = Some qValues \<longrightarrow>
            getQValues (initializeQValues ag state) k = Some qValues
          \<and> getQValues (fst (snd (chooseAction ag x y rnd n))) k = Some qValues
          \<and> getQValues (updateParameters ag lr df er) k = Some qValues)
       \<and> qTable (reset ag) = []"
proof -
  have c: "table_complete ag" using assms by (rule reachable_complete)
  have c': "table_complete (updateQValue ag state a reward nextState)"
    using c by (rule table_complete_updateQValue)
  have 1: "qvalue (updateQValue ag state a reward nextState) state a =
           qvalue ag state a + learningRate ag *
             (reward + discountFactor ag * Max (qvalue ag nextState ` set actions) - qvalue ag state a)"
    by (simp add: updateQValue_qvalue [OF c])
  have 2: "\<forall>k b. (k, b) \<noteq> (state, a) \<longrightarrow>
            qvalue (updateQValue ag state a reward nextState) k b = qvalue ag k b"
    by (simp add: updateQValue_qvalue [OF c])
  have 3: "\<forall>(k, qValues) \<in> set (qTable (updateQValue ag state a reward nextState)).
            map fst qValues = actions"
    using c' by (auto simp: table_complete_def list_all_iff entry_complete_def)
  have 4: "getQValues (fst (snd (chooseAction ag x y rnd n))) k = Some qValues"
    if "getQValues ag k = Some qValues" for k qValues
  proof -
    obtain a1 ag1 k1 where ch: "chooseAction ag x y rnd n = (a1, ag1, k1)"
      by (cases "chooseAction ag x y rnd n") auto
    show ?thesis
      using that chooseAction_agent [OF ch] ch by (auto simp: getQValues_def initialize_lookup)
  qed
  have 5: "getQValues (updateParameters ag lr df er) k = getQValues ag k" for k
    by (simp add: getQValues_def updateParameters_def Let_def split: option.splits)
  show ?thesis
    using 1 2 3 4 5 updateQValue_keys [OF c, of state a reward nextState]
    by (simp add: getQValues_def initialize_lookup reset_def)
qed

theorem updateQValue_rule_witness:
  "agent_reachable (new_QLearningAgent 3 (1 / 10) (9 / 10) 0)
   \<and> qvalue (updateQValue (new_QLearningAgent 3 (1 / 10) (9 / 10) 0) ''0,0'' ActUp (- 10) ''0,0'')
        ''0,0'' ActUp = - 1
   \<and> qvalue (updateQValue (new_QLearningAgent 3 (1 / 10) (9 / 10) 0) ''0,0'' ActUp (- 10) ''0,0'')
        ''0,0'' ActDown = 0"
proof -
  let ?ag = "new_QLearningAgent 3 (1 / 10) (9 / 10) 0"
  have r: "agent_reachable ?ag" by (rule reach_new)
  have q: "qvalue ?ag k b = 0" for k b
    by (simp add: qvalue_def getQValues_def new_QLearningAgent_def)
  have f: "learningRate ?ag = 1 / 10" "discountFactor ?ag = 9 / 10"
    by (simp_all add: new_QLearningAgent_def)
  have "(''0,0'', ActDown) \<noteq> (''0,0'', ActUp)" by simp
  with updateQValue_rule [OF r, of "''0,0''" ActUp "- 10" "''0,0''"] r show ?thesis
    by (simp add: q f actions_def)
qed

text \<open>
  Claim C8. When \<open>chooseAction\<close> exploits (the draw is not below \<open>explorationRate\<close>, which
  is so for every draw in [0, 1) when \<open>explorationRate = 0\<close>), it returns
  \<open>first_maximal\<close> of the state's stored values: an action whose value is maximal, with every
  action declared before it strictly smaller. The result is a function of the table and the
  position alone, and one draw is used.
\<close>
theorem chooseAction_greedy:
  assumes "agent_reachable ag" and "explorationRate ag = 0 \<and> 0 \<le> rnd k \<or> explorationRate ag \<le> rnd k"
  shows "chooseAction ag x y rnd k =
           (first_maximal (qvalue ag (getStateKey x y)), initializeQValues ag (getStateKey x y), k + 1)
       \<and> (\<forall>b. qvalue ag (getStateKey x y) b
              \<le> qvalue ag (getStateKey x y) (first_maximal (qvalue ag (getStateKey x y))))
       \<and> (\<forall>b \<in> set (takeWhile (\<lambda>c. c \<noteq> first_maximal (qvalue ag (getStateKey x y))) actions).
            qvalue ag (getStateKey x y) b
              < qvalue ag (getStateKey x y) (first_maximal (qvalue ag (getStateKey x y))))"
proof -
  have c: "table_complete ag" using assms(1) by (rule reachable_complete)
  have e: "explorationRate ag \<le> rnd k" using assms(2) by auto
  show ?thesis
    using chooseAction_exploit [where rnd = rnd and k = k, OF c e] first_maximal_max first_maximal_first
    by blast
qed

theorem chooseAction_greedy_witness:
  "agent_reachable (updateQValue (new_QLearningAgent 3 (1 / 10) (9 / 10) 0) ''0,0'' ActUp (- 10) ''0,0'')
   \<and> explorationRate (updateQValue (new_QLearningAgent 3 (1 / 10) (9 / 10) 0) ''0,0'' ActUp (- 10) ''0,0'') = 0
   \<and> chooseAction (updateQValue (new_QLearningAgent 3 (1 / 10) (9 / 10) 0) ''0,0'' ActUp (- 10) ''0,0'')
        0 0 (\<lambda>_. 0) 0 =
       (ActRight,
        \<lparr>qTable = [(''0,0'', [(ActUp, - 1), (ActRight, 0), (ActDown, 0), (ActLeft, 0)])],
          learningRate = 1 / 10, discountFactor = 9 / 10, explorationRate = 0, mazeSize = 3\<rparr>,
        1)"
proof -
  let ?ag = "updateQValue (new_QLearningAgent 3 (1 / 10) (9 / 10) 0) ''0,0'' ActUp (- 10) ''0,0''"
  have r: "agent_reachable ?ag" by (intro reach_update reach_new)
  have e: "explorationRate ?ag = 0" by code_simp
  have f: "first_maximal (qvalue ?ag (getStateKey 0 0)) = ActRight" by code_simp
  have i: "initializeQValues ?ag (getStateKey 0 0) =
        \<lparr>qTable = [(''0,0'', [(ActUp, - 1), (ActRight, 0), (ActDown, 0), (ActLeft, 0)])],
          learningRate = 1 / 10, discountFactor = 9 / 10, explorationRate = 0, mazeSize = 3\<rparr>"
    by code_simp
  have "explorationRate ?ag = 0 \<and> 0 \<le> (\<lambda>_. 0 :: real) (0 :: nat)
          \<or> explorationRate ?ag \<le> (\<lambda>_. 0 :: real) (0 :: nat)"
    using e by simp
  from chooseAction_greedy [OF r this, of 0 0] f i
  have "chooseAction ?ag 0 0 (\<lambda>_. 0) 0 =
       (ActRight,
        \<lparr>qTable = [(''0,0'', [(ActUp, - 1), (ActRight, 0), (ActDown, 0), (ActLeft, 0)])],
          learningRate = 1 / 10, discountFactor = 9 / 10, explorationRate = 0, mazeSize = 3\<rparr>,
        1)"
    by simp
  with r e show ?thesis by blast
qed

text \<open>
  Claim C2, as amended. A returned episode is the state after \<open>n\<close> passes through the loop
  body from the start state, with \<open>steps = n\<close> and a path of \<open>n + 1\<close> positions whose first is
  the start and whose last is \<open>finalPosition\<close>. The goal is tested after each pass only:
  \<open>success\<close> holds exactly when \<open>n \<ge> 1\<close> and the pass \<open>n\<close> ended on the goal, no earlier pass
  ended on the goal, and without success \<open>n\<close> is \<open>maxSteps\<close> (0 when that is negative). One
  pass chooses an action for the current position, takes the candidate position, adds the
  reward computed against the candidate, updates the action value of the current state with
  that reward and the key of the resulting position, moves to the candidate when it is valid
  and stays otherwise, and appends the resulting position to the path. When the maze has at
  least \<open>mazeSize\<close> rows the episode returns.
\<close>
theorem runEpisode_iterations:
  "(\<forall>res ag' k'. runEpisode ag maze startPos goalPos maxSteps rnd k = Inr (res, ag', k') \<longrightarrow>
      (\<exists>n st. episode_iterations n maze goalPos rnd (episode_start ag startPos k) = Inr st
         \<and> (res, ag', k') = episode_result (success res) st
         \<and> (success res \<longleftrightarrow> 1 \<le> n \<and> (es_x st, es_y st) = goalPos)
         \<and> (\<forall>m s. 1 \<le> m \<and> m < n
               \<and> episode_iterations m maze goalPos rnd (episode_start ag startPos k) = Inr s
               \<longrightarrow> (es_x s, es_y s) \<noteq> goalPos)
         \<and> (\<not> success res \<longrightarrow> int n = max 0 maxSteps)
         \<and> int n \<le> max 0 maxSteps
         \<and> steps res = int n
         \<and> length (path res) = n + 1
         \<and> hd (path res) = startPos
         \<and> finalPosition res = last (path res)))
   \<and> (\<forall>st st'. episode_iteration maze goalPos rnd st = Inr st' \<longrightarrow>
        (\<exists>a ag1 k1 valid.
           chooseAction (es_agent st) (es_x st) (es_y st) rnd (es_rng st) = (a, ag1, k1)
         \<and> isValidMove (es_agent st) (fst (getNextPosition (es_x st) (es_y st) a))
              (snd (getNextPosition (es_x st) (es_y st) a)) maze = Inr valid
         \<and> (es_x st', es_y st') =
              (if valid then getNextPosition (es_x st) (es_y st) a else (es_x st, es_y st))
         \<and> es_totalReward st' = es_totalReward st +
              (if \<not> valid then - 10
               else if getNextPosition (es_x st) (es_y st) a = goalPos then 100 else - 1)
         \<and> es_agent st' =
              updateQValue ag1 (getStateKey (es_x st) (es_y st)) a
                (if \<not> valid then - 10
                 else if getNextPosition (es_x st) (es_y st) a = goalPos then 100 else - 1)
                (getStateKey (es_x st') (es_y st'))
         \<and> es_rng st' = k1
         \<and> es_steps st' = es_steps st + 1
         \<and> es_path st' = es_path st @ [(es_x st', es_y st')]))
   \<and> (mazeSize ag \<le> int (length maze) \<longrightarrow>
        (\<exists>out. runEpisode ag maze startPos goalPos maxSteps rnd k = Inr out))"
proof (intro conjI allI impI)
  fix res ag' k'
  assume "runEpisode ag maze startPos goalPos maxSteps rnd k = Inr (res, ag', k')"
  then show "\<exists>n st. episode_iterations n maze goalPos rnd (episode_start ag startPos k) = Inr st
         \<and> (res, ag', k') = episode_result (success res) st
         \<and> (success res \<longleftrightarrow> 1 \<le> n \<and> (es_x st, es_y st) = goalPos)
         \<and> (\<forall>m s. 1 \<le> m \<and> m < n
               \<and> episode_iterations m maze goalPos rnd (episode_start ag startPos k) = Inr s
               \<longrightarrow> (es_x s, es_y s) \<noteq> goalPos)
         \<and> (\<not> success res \<longrightarrow> int n = max 0 maxSteps)
         \<and> int n \<le> max 0 maxSteps
         \<and> steps res = int n
         \<and> length (path res) = n + 1
         \<and> hd (path res) = startPos
         \<and> finalPosition res = last (path res)"
    by (rule runEpisode_result)
next
  fix st st'
  assume "episode_iteration maze goalPos rnd st = Inr st'"
  then show "\<exists>a ag1 k1 valid.
           chooseAction (es_agent st) (es_x st) (es_y st) rnd (es_rng st) = (a, ag1, k1)
         \<and> isValidMove (es_agent st) (fst (getNextPosition (es_x st) (es_y st) a))
              (snd (getNextPosition (es_x st) (es_y st) a)) maze = Inr valid
         \<and> (es_x st', es_y st') =
              (if valid then getNextPosition (es_x st) (es_y st) a else (es_x st, es_y st))
         \<and> es_totalReward st' = es_totalReward st +
              (if \<not> valid then - 10
               else if getNextPosition (es_x st) (es_y st) a = goalPos then 100 else - 1)
         \<and> es_agent st' =
              updateQValue ag1 (getStateKey (es_x st) (es_y st)) a
                (if \<not> valid then - 10
                 else if getNextPosition (es_x st) (es_y st) a = goalPos then 100 else - 1)
                (getStateKey (es_x st') (es_y st'))
         \<and> es_rng st' = k1
         \<and> es_steps st' = es_steps st + 1
         \<and> es_path st' = es_path st @ [(es_x st', es_y st')]"
    by (rule episode_iteration_unfold)
next
  assume "mazeSize ag \<le> int (length maze)"
  then show "\<exists>out. runEpisode ag maze startPos goalPos maxSteps rnd k = Inr out"
    unfolding runEpisode_def by (intro runEpisode_loop_returns) simp
qed

theorem runEpisode_iterations_witness:
  "runEpisode (new_QLearningAgent 2 (1 / 10) (9 / 10) 0) [[0, 0], [1, 0]] (0, 0) (1, 1) 10 (\<lambda>_. 0) 0 =
     Inr (\<lparr>success = True, steps = 5, totalReward = 69, finalPosition = (1, 1),
           path = [(0, 0), (0, 0), (1, 0), (1, 0), (1, 0), (1, 1)]\<rparr>,
          \<lparr>qTable =
             [(''0,0'', [(ActUp, - 1), (ActRight, - (1 / 10)), (ActDown, 0), (ActLeft, 0)]),
              (''1,0'', [(ActUp, - 1), (ActRight, - 1), (ActDown, 10), (ActLeft, 0)]),
              (''1,1'', [(ActUp, 0), (ActRight, 0), (ActDown, 0), (ActLeft, 0)])],
            learningRate = 1 / 10, discountFactor = 9 / 10, explorationRate = 0, mazeSize = 2\<rparr>,
          5)
   \<and> mazeSize (new_QLearningAgent 2 (1 / 10) (9 / 10) 0) \<le> int (length [[0 :: nat, 0], [1, 0]])
   \<and> (\<exists>st. episode_iterations 5 [[0, 0], [1, 0]] (1, 1) (\<lambda>_. 0)
              (episode_start (new_QLearningAgent 2 (1 / 10) (9 / 10) 0) (0, 0) 0) = Inr st
            \<and> (es_x st, es_y st) = (1, 1))"
proof -
  let ?ag = "new_QLearningAgent 2 (1 / 10) (9 / 10) 0"
  let ?res = "\<lparr>success = True, steps = 5, totalReward = 69, finalPosition = (1, 1),
           path = [(0, 0), (0, 0), (1, 0), (1, 0), (1, 0), (1, 1)]\<rparr>"
  let ?ag' = "\<lparr>qTable =
             [(''0,0'', [(ActUp, - 1), (ActRight, - (1 / 10)), (ActDown, 0), (ActLeft, 0)]),
              (''1,0'', [(ActUp, - 1), (ActRight, - 1), (ActDown, 10), (ActLeft, 0)]),
              (''1,1'', [(ActUp, 0), (ActRight, 0), (ActDown, 0), (ActLeft, 0)])],
            learningRate = 1 / 10, discountFactor = 9 / 10, explorationRate = 0, mazeSize = 2\<rparr>"
  have run: "runEpisode ?ag [[0, 0], [1, 0]] (0, 0) (1, 1) 10 (\<lambda>_. 0) 0 = Inr (?res, ?ag', 5)"
    by code_simp
  from runEpisode_iterations [of ?ag "[[0, 0], [1, 0]]" "(0, 0)" "(1, 1)" 10 "\<lambda>_. 0" 0] run
  obtain n st where
    "episode_iterations n [[0, 0], [1, 0]] (1, 1) (\<lambda>_. 0) (episode_start ?ag (0, 0) 0) = Inr st"
    "success ?res \<longleftrightarrow> 1 \<le> n \<and> (es_x st, es_y st) = (1, 1)" "steps ?res = int n"
    by blast
  then have "episode_iterations 5 [[0, 0], [1, 0]] (1, 1) (\<lambda>_. 0) (episode_start ?ag (0, 0) 0) = Inr st
     \<and> (es_x st, es_y st) = (1, 1)"
    by simp
  moreover have "mazeSize ?ag \<le> int (length [[0 :: nat, 0], [1, 0]])"
    by (simp add: new_QLearningAgent_def)
  ultimately show ?thesis using run by blast
qed

text \<open>
  Against C2 as stated: with the start on the goal, exploration rate 1 and every draw 0.3, the
  agent steps right off the goal, stays there, and the episode of 3 steps returns
  \<open>success = False\<close> although its first position was the goal.
\<close>

theorem runEpisode_start_at_goal_counterexample:
  "runEpisode (new_QLearningAgent 2 (1 / 10) (9 / 10) 1) [[0, 0], [1, 0]] (0, 0) (0, 0) 3
     (\<lambda>_. 3 / 10) 0 =
     Inr (\<lparr>success = False, steps = 3, totalReward = - 21, finalPosition = (1, 0),
           path = [(0, 0), (1, 0), (1, 0), (1, 0)]\<rparr>,
          \<lparr>qTable =
             [(''0,0'', [(ActUp, 0), (ActRight, - (1 / 10)), (ActDown, 0), (ActLeft, 0)]),
              (''1,0'', [(ActUp, 0), (ActRight, - (19 / 10)), (ActDown, 0), (ActLeft, 0)])],
            learningRate = 1 / 10, discountFactor = 9 / 10, explorationRate = 1, mazeSize = 2\<rparr>,
          6)"
  by code_simp

text \<open>
  Claim C3. The reward is -10 when the candidate is invalid (outside the \<open>mazeSize\<close> square,
  or a cell that is not 0), else 100 when the candidate is the goal, else -1. Every pass of
  the loop of \<open>runEpisode\<close> that returns adds exactly this reward of its candidate to the
  total: -10 for an invalid candidate, 100 for a valid candidate that is the goal, -1 for any
  other valid candidate; the position becomes the candidate when it is valid and stays
  otherwise, the action value is updated with this reward and the key of the resulting
  position as next state, and the resulting position is appended to the path. The
  \<open>totalReward\<close>, \<open>finalPosition\<close> and \<open>path\<close> that an episode returns are those of the
  state after \<open>steps\<close> such passes from the start state, whose total is 0. In a pass whose
  candidate is invalid the position stays, -10 is added to the total, the action value is
  updated with the current state as both state and next state, and the unchanged position is
  appended to the path. An episode of one step whose move is invalid returns
  \<open>totalReward = -10\<close>, the start as \<open>finalPosition\<close> and the path \<open>[start, start]\<close>.
\<close>
theorem reward_accounting:
  "calculateReward ag x y newX newY maze goalX goalY =
     (case isValidMove ag newX newY maze of
        Inl e \<Rightarrow> Inl e
      | Inr valid \<Rightarrow>
          Inr (if \<not> valid then - 10 else if newX = goalX \<and> newY = goalY then 100 else - 1))
   \<and> (isValidMove ag newX newY maze = Inr False \<longleftrightarrow>
        \<not> (0 \<le> newX \<and> newX < mazeSize ag \<and> 0 \<le> newY \<and> newY < mazeSize ag)
        \<or> (\<exists>row. js_index maze newY = Some row \<and> js_index row newX \<noteq> Some 0))
   \<and> (\<forall>st st'. episode_iteration maze goalPos rnd st = Inr st' \<longrightarrow>
        (\<exists>a ag1 k1 valid.
           chooseAction (es_agent st) (es_x st) (es_y st) rnd (es_rng st) = (a, ag1, k1)
         \<and> isValidMove (es_agent st) (fst (getNextPosition (es_x st) (es_y st) a))
              (snd (getNextPosition (es_x st) (es_y st) a)) maze = Inr valid
         \<and> es_totalReward st' = es_totalReward st +
              (if \<not> valid then - 10
               else if getNextPosition (es_x st) (es_y st) a = goalPos then 100 else - 1)
         \<and> (es_x st', es_y st') =
              (if valid then getNextPosition (es_x st) (es_y st) a else (es_x st, es_y st))
         \<and> es_agent st' =
              updateQValue ag1 (getStateKey (es_x st) (es_y st)) a
                (if \<not> valid then - 10
                 else if getNextPosition (es_x st) (es_y st) a = goalPos then 100 else - 1)
                (getStateKey (es_x st') (es_y st'))
         \<and> es_path st' = es_path st @ [(es_x st', es_y st')]))
   \<and> (\<forall>res ag' k'. runEpisode ag maze startPos goalPos maxSteps rnd k = Inr (res, ag', k') \<longrightarrow>
        (\<exists>n st. episode_iterations n maze goalPos rnd (episode_start ag startPos k) = Inr st
           \<and> steps res = int n
           \<and> totalReward res = es_totalReward st
           \<and> finalPosition res = (es_x st, es_y st)
           \<and> path res = es_path st))
   \<and> es_totalReward (episode_start ag startPos k) = 0
   \<and> (\<forall>st st' a ag1 k1.
        episode_iteration maze goalPos rnd st = Inr st'
        \<and> chooseAction (es_agent st) (es_x st) (es_y st) rnd (es_rng st) = (a, ag1, k1)
        \<and> isValidMove (es_agent st) (fst (getNextPosition (es_x st) (es_y st) a))
              (snd (getNextPosition (es_x st) (es_y st) a)) maze = Inr False
        \<longrightarrow> (es_x st', es_y st') = (es_x st, es_y st)
          \<and> es_totalReward st' = es_totalReward st - 10
          \<and> es_agent st' =
              updateQValue ag1 (getStateKey (es_x st) (es_y st)) a (- 10)
                (getStateKey (es_x st) (es_y st))
          \<and> es_path st' = es_path st @ [(es_x st, es_y st)])
   \<and> (\<forall>res ag' k' a ag1 k1.
        runEpisode ag maze startPos goalPos 1 rnd k = Inr (res, ag', k')
        \<and> chooseAction ag (fst startPos) (snd startPos) rnd k = (a, ag1, k1)
        \<and> isValidMove ag (fst (getNextPosition (fst startPos) (snd startPos) a))
              (snd (getNextPosition (fst startPos) (snd startPos) a)) maze = Inr False
        \<longrightarrow> totalReward res = - 10 \<and> finalPosition res = startPos
          \<and> path res = [startPos, startPos] \<and> steps res = 1)"
proof -
  have 1: "calculateReward ag x y newX newY maze goalX goalY =
     (case isValidMove ag newX newY maze of
        Inl e \<Rightarrow> Inl e
      | Inr valid \<Rightarrow>
          Inr (if \<not> valid then - 10 else if newX = goalX \<and> newY = goalY then 100 else - 1))"
    by (simp add: calculateReward_def split: sum.splits)
  have 2: "isValidMove ag newX newY maze = Inr False \<longleftrightarrow>
        \<not> (0 \<le> newX \<and> newX < mazeSize ag \<and> 0 \<le> newY \<and> newY < mazeSize ag)
        \<or> (\<exists>row. js_index maze newY = Some row \<and> js_index row newX \<noteq> Some 0)"
    by (rule isValidMove_False_iff)
  have 3: "\<exists>a ag1 k1 valid.
           chooseAction (es_agent st) (es_x st) (es_y st) rnd (es_rng st) = (a, ag1, k1)
         \<and> isValidMove (es_agent st) (fst (getNextPosition (es_x st) (es_y st) a))
              (snd (getNextPosition (es_x st) (es_y st) a)) maze = Inr valid
         \<and> es_totalReward st' = es_totalReward st +
              (if \<not> valid then - 10
               else if getNextPosition (es_x st) (es_y st) a = goalPos then 100 else - 1)
         \<and> (es_x st', es_y st') =
              (if valid then getNextPosition (es_x st) (es_y st) a else (es_x st, es_y st))
         \<and> es_agent st' =
              updateQValue ag1 (getStateKey (es_x st) (es_y st)) a
                (if \<not> valid then - 10
                 else if getNextPosition (es_x st) (es_y st) a = goalPos then 100 else - 1)
                (getStateKey (es_x st') (es_y st'))
         \<and> es_path st' = es_path st @ [(es_x st', es_y st')]"
    if "episode_iteration maze goalPos rnd st = Inr st'" for st st'
    using episode_iteration_unfold [OF that] by blast
  have 4: "\<exists>n st. episode_iterations n maze goalPos rnd (episode_start ag startPos k) = Inr st
           \<and> steps res = int n
           \<and> totalReward res = es_totalReward st
           \<and> finalPosition res = (es_x st, es_y st)
           \<and> path res = es_path st"
    if run: "runEpisode ag maze startPos goalPos maxSteps rnd k = Inr (res, ag', k')" for res ag' k'
  proof -
    from runEpisode_result [OF run] obtain n st where
      a: "episode_iterations n maze goalPos rnd (episode_start ag startPos k) = Inr st"
      and b: "(res, ag', k') = episode_result (success res) st"
      and s: "steps res = int n"
      by blast
    have rr: "res = fst (episode_result (success res) st)"
      using b by (metis fst_conv)
    have "totalReward res = es_totalReward st"
      using arg_cong [OF rr, of totalReward] by (simp add: episode_result_def)
    moreover have "finalPosition res = (es_x st, es_y st)"
      using arg_cong [OF rr, of finalPosition] by (simp add: episode_result_def)
    moreover have "path res = es_path st"
      using arg_cong [OF rr, of path] by (simp add: episode_result_def)
    ultimately show ?thesis using a s by blast
  qed
  have 5: "es_totalReward (episode_start ag startPos k) = 0"
    by (simp add: episode_start_def)
  have 6: "(es_x st', es_y st') = (es_x st, es_y st)
          \<and> es_totalReward st' = es_totalReward st - 10
          \<and> es_agent st' =
              updateQValue ag1 (getStateKey (es_x st) (es_y st)) a (- 10)
                (getStateKey (es_x st) (es_y st))
          \<and> es_path st' = es_path st @ [(es_x st, es_y st)]"
    if h: "episode_iteration maze goalPos rnd st = Inr st'
        \<and> chooseAction (es_agent st) (es_x st) (es_y st) rnd (es_rng st) = (a, ag1, k1)
        \<and> isValidMove (es_agent st) (fst (getNextPosition (es_x st) (es_y st) a))
              (snd (getNextPosition (es_x st) (es_y st) a)) maze = Inr False"
    for st st' a ag1 k1
    using episode_iteration_unfold [of maze goalPos rnd st st'] h by auto
  have 7: "totalReward res = - 10 \<and> finalPosition res = startPos
          \<and> path res = [startPos, startPos] \<and> steps res = 1"
    if h: "runEpisode ag maze startPos goalPos 1 rnd k = Inr (res, ag', k')
        \<and> chooseAction ag (fst startPos) (snd startPos) rnd k = (a, ag1, k1)
        \<and> isValidMove ag (fst (getNextPosition (fst startPos) (snd startPos) a))
              (snd (getNextPosition (fst startPos) (snd startPos) a)) maze = Inr False"
    for res ag' k' a ag1 k1
  proof -
    let ?st = "episode_start ag startPos k"
    from h have run: "runEpisode_loop maze goalPos 1 rnd ?st = Inr (res, ag', k')"
      by (simp add: runEpisode_def episode_start_def)
    have lt: "es_steps ?st < 1" by (simp add: episode_start_def)
    from run lt obtain st1 where it: "episode_iteration maze goalPos rnd ?st = Inr st1"
      by (auto simp: runEpisode_loop.simps [of maze goalPos 1 rnd ?st] split: sum.splits)
    from episode_iteration_unfold [OF it] h
    have u: "(es_x st1, es_y st1) = startPos" "es_totalReward st1 = - 10" "es_steps st1 = 1"
      "es_path st1 = [startPos, startPos]"
      by (auto simp: episode_start_def)
    have "\<not> es_steps st1 < 1" using u by simp
    then have "runEpisode_loop maze goalPos 1 rnd st1 = Inr (episode_result False st1)"
      by (simp add: runEpisode_loop.simps [of maze goalPos 1 rnd st1])
    with run lt it have "(res, ag', k') = episode_result True st1 \<or> (res, ag', k') = episode_result False st1"
      by (auto simp: runEpisode_loop.simps [of maze goalPos 1 rnd ?st] split: if_splits)
    then show ?thesis
      using u by (auto simp: episode_result_def)
  qed
  show ?thesis
    using 1 2 3 4 5 6 7 by blast
qed


theorem reward_accounting_witness:
  "runEpisode (new_QLearningAgent 2 (1 / 10) (9 / 10) 0) [[0, 1], [1, 0]] (0, 0) (1, 1) 1 (\<lambda>_. 0) 0 =
     Inr (\<lparr>success = False, steps = 1, totalReward = - 10, finalPosition = (0, 0),
           path = [(0, 0), (0, 0)]\<rparr>,
          \<lparr>qTable = [(''0,0'', [(ActUp, - 1), (ActRight, 0), (ActDown, 0), (ActLeft, 0)])],
            learningRate = 1 / 10, discountFactor = 9 / 10, explorationRate = 0, mazeSize = 2\<rparr>,
          1)
   \<and> fst (chooseAction (new_QLearningAgent 2 (1 / 10) (9 / 10) 0) 0 0 (\<lambda>_. 0) 0) = ActUp
   \<and> isValidMove (new_QLearningAgent 2 (1 / 10) (9 / 10) 0) 0 (- 1) [[0, 1], [1, 0]] = Inr False
   \<and> totalReward \<lparr>success = False, steps = 1, totalReward = - 10, finalPosition = (0, 0),
           path = [(0, 0), (0, 0)]\<rparr> = - 10
   \<and> runEpisode (new_QLearningAgent 2 (1 / 10) (9 / 10) 0) [[0, 0], [1, 0]] (0, 0) (1, 1) 10 (\<lambda>_. 0) 0 =
     Inr (\<lparr>success = True, steps = 5, totalReward = 69, finalPosition = (1, 1),
           path = [(0, 0), (0, 0), (1, 0), (1, 0), (1, 0), (1, 1)]\<rparr>,
          \<lparr>qTable =
             [(''0,0'', [(ActUp, - 1), (ActRight, - (1 / 10)), (ActDown, 0), (ActLeft, 0)]),
              (''1,0'', [(ActUp, - 1), (ActRight, - 1), (ActDown, 10), (ActLeft, 0)]),
              (''1,1'', [(ActUp, 0), (ActRight, 0), (ActDown, 0), (ActLeft, 0)])],
            learningRate = 1 / 10, discountFactor = 9 / 10, explorationRate = 0, mazeSize = 2\<rparr>,
          5)
   \<and> (\<exists>st. episode_iterations 5 [[0, 0], [1, 0]] (1, 1) (\<lambda>_. 0)
              (episode_start (new_QLearningAgent 2 (1 / 10) (9 / 10) 0) (0, 0) 0) = Inr st
          \<and> es_totalReward st = 69 \<and> (es_x st, es_y st) = (1, 1))
   \<and> (\<exists>st'. episode_iteration [[0, 0], [1, 0]] (1, 1) (\<lambda>_. 1 / 2)
              (episode_start (new_QLearningAgent 2 (1 / 10) (9 / 10) 1) (1, 0) 0) = Inr st'
          \<and> es_totalReward st' = 100 \<and> (es_x st', es_y st') = (1, 1)
          \<and> es_agent st' =
              updateQValue (initializeQValues (new_QLearningAgent 2 (1 / 10) (9 / 10) 1) ''1,0'')
                ''1,0'' ActDown 100 ''1,1'')"
proof -
  let ?ag = "new_QLearningAgent 2 (1 / 10) (9 / 10) 0"
  let ?res = "\<lparr>success = False, steps = 1, totalReward = - 10, finalPosition = (0, 0),
           path = [(0, 0), (0, 0)]\<rparr>"
  let ?ag' = "\<lparr>qTable = [(''0,0'', [(ActUp, - 1), (ActRight, 0), (ActDown, 0), (ActLeft, 0)])],
            learningRate = 1 / 10, discountFactor = 9 / 10, explorationRate = 0, mazeSize = 2\<rparr>"
  have run: "runEpisode ?ag [[0, 1], [1, 0]] (0, 0) (1, 1) 1 (\<lambda>_. 0) 0 = Inr (?res, ?ag', 1)"
    by code_simp
  have ch: "chooseAction ?ag 0 0 (\<lambda>_. 0) 0 = (ActUp, initializeQValues ?ag ''0,0'', 1)"
    by code_simp
  have v: "isValidMove ?ag 0 (- 1) [[0, 1], [1, 0]] = Inr False"
    by (simp add: isValidMove_def)
  from reward_accounting [where ag = ?ag and maze = "[[0, 1], [1, 0]]" and goalPos = "(1, 1)"
      and rnd = "\<lambda>_. 0" and startPos = "(0, 0)" and k = 0]
    run ch v
  have first: "totalReward ?res = - 10"
    by (auto simp del: EpisodeResult.simps)
  let ?open = "[[0, 0], [1, 0]] :: nat list list"
  let ?won = "\<lparr>success = True, steps = 5, totalReward = 69, finalPosition = (1, 1),
           path = [(0, 0), (0, 0), (1, 0), (1, 0), (1, 0), (1, 1)]\<rparr>"
  let ?learnt = "\<lparr>qTable =
             [(''0,0'', [(ActUp, - 1), (ActRight, - (1 / 10)), (ActDown, 0), (ActLeft, 0)]),
              (''1,0'', [(ActUp, - 1), (ActRight, - 1), (ActDown, 10), (ActLeft, 0)]),
              (''1,1'', [(ActUp, 0), (ActRight, 0), (ActDown, 0), (ActLeft, 0)])],
            learningRate = 1 / 10, discountFactor = 9 / 10, explorationRate = 0, mazeSize = 2\<rparr>"
  have run5: "runEpisode ?ag ?open (0, 0) (1, 1) 10 (\<lambda>_. 0) 0 = Inr (?won, ?learnt, 5)"
    by code_simp
  from reward_accounting [where ag = ?ag and maze = ?open and goalPos = "(1, 1)"
      and rnd = "\<lambda>_. 0" and startPos = "(0, 0)" and k = 0 and maxSteps = 10,
      THEN conjunct2, THEN conjunct2, THEN conjunct2, THEN conjunct1, rule_format, OF run5]
  obtain n st where
    its: "episode_iterations n ?open (1, 1) (\<lambda>_. 0) (episode_start ?ag (0, 0) 0) = Inr st"
    and n: "steps ?won = int n"
    and tot: "totalReward ?won = es_totalReward st"
    and fin: "finalPosition ?won = (es_x st, es_y st)"
    by blast
  from n have n5: "n = 5" by simp
  have second: "\<exists>st. episode_iterations 5 ?open (1, 1) (\<lambda>_. 0) (episode_start ?ag (0, 0) 0) = Inr st
          \<and> es_totalReward st = 69 \<and> (es_x st, es_y st) = (1, 1)"
    using its tot fin unfolding n5 by (intro exI [of _ st]) simp
  let ?bold = "new_QLearningAgent 2 (1 / 10) (9 / 10) 1"
  let ?st = "episode_start ?bold (1, 0) 0"
  have "mazeSize (es_agent ?st) \<le> int (length ?open)"
    by (simp add: episode_start_def new_QLearningAgent_def)
  from episode_iteration_returns [OF this]
  obtain st' where it: "episode_iteration ?open (1, 1) (\<lambda>_. 1 / 2) ?st = Inr st'"
    by blast
  have ch2: "chooseAction (es_agent ?st) (es_x ?st) (es_y ?st) (\<lambda>_. 1 / 2) (es_rng ?st) =
      (ActDown, initializeQValues ?bold ''1,0'', 2)"
    by code_simp
  have v2: "isValidMove (es_agent ?st) 1 1 ?open = Inr True"
    by (simp add: isValidMove_def episode_start_def new_QLearningAgent_def js_index_def)
  have keys: "getStateKey 1 0 = ''1,0''" "getStateKey 1 1 = ''1,1''"
    by code_simp+
  from reward_accounting [where maze = ?open and goalPos = "(1, 1)" and rnd = "\<lambda>_. 1 / 2",
      THEN conjunct2, THEN conjunct2, THEN conjunct1, rule_format, OF it]
  obtain a ag1 k1 valid where
    c: "chooseAction (es_agent ?st) (es_x ?st) (es_y ?st) (\<lambda>_. 1 / 2) (es_rng ?st) = (a, ag1, k1)"
    and w: "isValidMove (es_agent ?st) (fst (getNextPosition (es_x ?st) (es_y ?st) a))
              (snd (getNextPosition (es_x ?st) (es_y ?st) a)) ?open = Inr valid"
    and r: "es_totalReward st' = es_totalReward ?st +
              (if \<not> valid then - 10
               else if getNextPosition (es_x ?st) (es_y ?st) a = (1, 1) then 100 else - 1)"
    and p: "(es_x st', es_y st') =
              (if valid then getNextPosition (es_x ?st) (es_y ?st) a else (es_x ?st, es_y ?st))"
    and u: "es_agent st' =
              updateQValue ag1 (getStateKey (es_x ?st) (es_y ?st)) a
                (if \<not> valid then - 10
                 else if getNextPosition (es_x ?st) (es_y ?st) a = (1, 1) then 100 else - 1)
                (getStateKey (es_x st') (es_y st'))"
    by blast
  from c ch2 have a: "a = ActDown" "ag1 = initializeQValues ?bold ''1,0''" by simp_all
  have pos: "es_x ?st = 1" "es_y ?st = 0" "es_totalReward ?st = 0"
    by (simp_all add: episode_start_def)
  have nx: "getNextPosition 1 0 ActDown = (1, 1)"
    by simp
  from w v2 have valid: "valid" by (simp add: a pos nx)
  from r have r': "es_totalReward st' = 100" by (simp add: a pos nx valid)
  from p have p': "(es_x st', es_y st') = (1, 1)" by (simp add: a pos nx valid)
  from p' have xy: "es_x st' = 1" "es_y st' = 1" by simp_all
  from u have u': "es_agent st' = updateQValue (initializeQValues ?bold ''1,0'') ''1,0'' ActDown 100 ''1,1''"
    by (simp add: a pos nx valid xy keys)
  have third: "\<exists>st'. episode_iteration ?open (1, 1) (\<lambda>_. 1 / 2) ?st = Inr st'
          \<and> es_totalReward st' = 100 \<and> (es_x st', es_y st') = (1, 1)
          \<and> es_agent st' = updateQValue (initializeQValues ?bold ''1,0'') ''1,0'' ActDown 100 ''1,1''"
    using it r' p' u' by blast
  from run ch v first run5 second third show ?thesis by simp
qed

text \<open>
  Claim C9. \<open>getMaxQValue\<close> starts its running maximum at 0, so it returns the maximum of
  0 and the stored values (\<open>getMaxQValue_floor\<close>). After four steps of an episode
  on the 2 x 2 maze whose start is walled in, with \<open>explorationRate = 0\<close>, the table holds the
  single state \<open>0,0\<close> with all four values -1: the maximum stored value is -1 and
  \<open>getMaxQValue\<close> returns 0.
\<close>
theorem getMaxQValue_all_negative:
  "runEpisode (new_QLearningAgent 2 (1 / 10) (9 / 10) 0) [[0, 1], [1, 0]] (0, 0) (1, 1) 4 (\<lambda>_. 0) 0 =
     Inr (\<lparr>success = False, steps = 4, totalReward = - 40, finalPosition = (0, 0),
           path = [(0, 0), (0, 0), (0, 0), (0, 0), (0, 0)]\<rparr>,
          \<lparr>qTable = [(''0,0'', [(ActUp, - 1), (ActRight, - 1), (ActDown, - 1), (ActLeft, - 1)])],
            learningRate = 1 / 10, discountFactor = 9 / 10, explorationRate = 0, mazeSize = 2\<rparr>,
          4)
   \<and> getMaxQValue
        \<lparr>qTable = [(''0,0'', [(ActUp, - 1), (ActRight, - 1), (ActDown, - 1), (ActLeft, - 1)])],
          learningRate = 1 / 10, discountFactor = 9 / 10, explorationRate = 0, mazeSize = 2\<rparr> = 0
   \<and> Max (qvalue
        \<lparr>qTable = [(''0,0'', [(ActUp, - 1), (ActRight, - 1), (ActDown, - 1), (ActLeft, - 1)])],
          learningRate = 1 / 10, discountFactor = 9 / 10, explorationRate = 0, mazeSize = 2\<rparr>
        ''0,0'' ` set actions) = - 1"
proof -
  have 1: "runEpisode (new_QLearningAgent 2 (1 / 10) (9 / 10) 0) [[0, 1], [1, 0]] (0, 0) (1, 1) 4 (\<lambda>_. 0) 0 =
     Inr (\<lparr>success = False, steps = 4, totalReward = - 40, finalPosition = (0, 0),
           path = [(0, 0), (0, 0), (0, 0), (0, 0), (0, 0)]\<rparr>,
          \<lparr>qTable = [(''0,0'', [(ActUp, - 1), (ActRight, - 1), (ActDown, - 1), (ActLeft, - 1)])],
            learningRate = 1 / 10, discountFactor = 9 / 10, explorationRate = 0, mazeSize = 2\<rparr>,
          4)"
    by code_simp
  have 2: "getMaxQValue
        \<lparr>qTable = [(''0,0'', [(ActUp, - 1), (ActRight, - 1), (ActDown, - 1), (ActLeft, - 1)])],
          learningRate = 1 / 10, discountFactor = 9 / 10, explorationRate = 0, mazeSize = 2\<rparr> = 0"
    by (simp add: getMaxQValue_def Math_max_def)
  have 3: "Max (qvalue
        \<lparr>qTable = [(''0,0'', [(ActUp, - 1), (ActRight, - 1), (ActDown, - 1), (ActLeft, - 1)])],
          learningRate = 1 / 10, discountFactor = 9 / 10, explorationRate = 0, mazeSize = 2\<rparr>
        ''0,0'' ` set actions) = - 1"
    by (simp add: qvalue_def getQValues_def entry_get_def actions_def)
  from 1 2 3 show ?thesis by blast
qed

text \<open>
  Claim C10. When the start is a valid position (inside the \<open>mazeSize\<close> square, on a cell
  that is 0), every position of the returned path is inside the square and on a cell that is
  0, and so is \<open>finalPosition\<close>, the last position of the path.
\<close>
theorem runEpisode_path_valid:
  assumes "runEpisode ag maze startPos goalPos maxSteps rnd k = Inr (res, ag', k')"
    and "isValidMove ag (fst startPos) (snd startPos) maze = Inr True"
  shows "(\<forall>(x, y) \<in> set (path res).
            0 \<le> x \<and> x < mazeSize ag \<and> 0 \<le> y \<and> y < mazeSize ag
            \<and> (\<exists>row. js_index maze y = Some row \<and> js_index row x = Some 0))
       \<and> finalPosition res \<in> set (path res)
       \<and> isValidMove ag (fst (finalPosition res)) (snd (finalPosition res)) maze = Inr True"
proof -
  from runEpisode_result [OF assms(1)] obtain n st where
    a: "episode_iterations n maze goalPos rnd (episode_start ag startPos k) = Inr st"
    and b: "(res, ag', k') = episode_result (success res) st"
    and l: "length (path res) = n + 1" "finalPosition res = last (path res)"
    by blast
  have v: "(\<forall>p \<in> set (es_path st). isValidMove ag (fst p) (snd p) maze = Inr True)
       \<and> isValidMove ag (es_x st) (es_y st) maze = Inr True"
    by (rule episode_iterations_valid [OF a]) (use assms(2) in \<open>simp_all add: episode_start_def\<close>)
  have rr: "res = fst (episode_result (success res) st)"
    using b by (metis fst_conv)
  have pp: "path res = es_path st"
    using arg_cong [OF rr, of path] by (simp add: episode_result_def)
  have ff: "finalPosition res = (es_x st, es_y st)"
    using arg_cong [OF rr, of finalPosition] by (simp add: episode_result_def)
  have ne: "path res \<noteq> []" using l by auto
  have mem: "finalPosition res \<in> set (path res)"
    using ne l(2) by simp
  show ?thesis
    using v pp ff mem by (auto simp: isValidMove_True_iff)
qed

theorem runEpisode_path_valid_witness:
  "runEpisode (new_QLearningAgent 2 (1 / 10) (9 / 10) 0) [[0, 0], [1, 0]] (0, 0) (1, 1) 10 (\<lambda>_. 0) 0 =
     Inr (\<lparr>success = True, steps = 5, totalReward = 69, finalPosition = (1, 1),
           path = [(0, 0), (0, 0), (1, 0), (1, 0), (1, 0), (1, 1)]\<rparr>,
          \<lparr>qTable =
             [(''0,0'', [(ActUp, - 1), (ActRight, - (1 / 10)), (ActDown, 0), (ActLeft, 0)]),
              (''1,0'', [(ActUp, - 1), (ActRight, - 1), (ActDown, 10), (ActLeft, 0)]),
              (''1,1'', [(ActUp, 0), (ActRight, 0), (ActDown, 0), (ActLeft, 0)])],
            learningRate = 1 / 10, discountFactor = 9 / 10, explorationRate = 0, mazeSize = 2\<rparr>,
          5)
   \<and> isValidMove (new_QLearningAgent 2 (1 / 10) (9 / 10) 0) 0 0 [[0, 0], [1, 0]] = Inr True
   \<and> isValidMove (new_QLearningAgent 2 (1 / 10) (9 / 10) 0) 1 1 [[0, 0], [1, 0]] = Inr True"
proof -
  let ?ag = "new_QLearningAgent 2 (1 / 10) (9 / 10) 0"
  let ?res = "\<lparr>success = True, steps = 5, totalReward = 69, finalPosition = (1, 1),
           path = [(0, 0), (0, 0), (1, 0), (1, 0), (1, 0), (1, 1)]\<rparr>"
  let ?ag' = "\<lparr>qTable =
             [(''0,0'', [(ActUp, - 1), (ActRight, - (1 / 10)), (ActDown, 0), (ActLeft, 0)]),
              (''1,0'', [(ActUp, - 1), (ActRight, - 1), (ActDown, 10), (ActLeft, 0)]),
              (''1,1'', [(ActUp, 0), (ActRight, 0), (ActDown, 0), (ActLeft, 0)])],
            learningRate = 1 / 10, discountFactor = 9 / 10, explorationRate = 0, mazeSize = 2\<rparr>"
  have run: "runEpisode ?ag [[0, 0], [1, 0]] (0, 0) (1, 1) 10 (\<lambda>_. 0) 0 = Inr (?res, ?ag', 5)"
    by code_simp
  have v: "isValidMove ?ag (fst (0, 0)) (snd (0, 0)) [[0, 0], [1, 0]] = Inr True"
    by (simp add: isValidMove_def js_index_def new_QLearningAgent_def)
  from runEpisode_path_valid [OF run v]
  have "isValidMove ?ag (fst (finalPosition ?res)) (snd (finalPosition ?res)) [[0, 0], [1, 0]] = Inr True"
    by blast
  then have "isValidMove ?ag 1 1 [[0, 0], [1, 0]] = Inr True" by simp
  with run v show ?thesis by simp
qed

section \<open>Properties of the maze generator\<close>

lemma dims_replicate: "dims sz (replicate (nat sz) (replicate (nat sz) v))"
  by (simp add: dims_def)

lemma dims_set_cell: "dims sz m \<Longrightarrow> dims sz (set_cell m x y v)"
proof -
  assume d: "dims sz m"
  show ?thesis
  proof (cases "nat y < length m")
    case True
    then have "m ! nat y \<in> set m" by simp
    with d have "length ((m ! nat y)[nat x := v]) = nat sz" by (simp add: dims_def)
    with d show ?thesis
      unfolding dims_def set_cell_def
      by (auto dest!: set_update_subset_insert [THEN subsetD])
  next
    case False
    then have "length m \<le> nat y" by simp
    with d show ?thesis by (simp add: set_cell_def list_update_beyond)
  qed
qed

lemma cell_set_cell:
  assumes "dims sz m" "isValidPosition sz x y"
  shows "cell (set_cell m x y v) x' y' =
           (if nat x' = nat x \<and> nat y' = nat y then v else cell m x' y')"
proof -
  have y: "nat y < length m" using assms by (auto simp: dims_def isValidPosition_def)
  then have "m ! nat y \<in> set m" by simp
  then have x: "nat x < length (m ! nat y)" using assms by (auto simp: dims_def isValidPosition_def)
  show ?thesis
    using x y by (auto simp: cell_def set_cell_def nth_list_update)
qed

lemma cell_set_cell_valid:
  assumes "dims sz m" "isValidPosition sz x y" "isValidPosition sz x' y'"
  shows "cell (set_cell m x y v) x' y' = (if x' = x \<and> y' = y then v else cell m x' y')"
  using assms(2,3) cell_set_cell [OF assms(1,2), of v x' y']
  by (auto simp: isValidPosition_def)

lemma cell_set_cell_zero:
  "cell m x' y' = 0 \<Longrightarrow> cell (set_cell m x y 0) x' y' = 0"
proof -
  assume z: "cell m x' y' = 0"
  have upd: "xs[i := v] ! j = (if j = i \<and> i < length xs then v else xs ! j)" for xs :: "'b list" and i j v
    by (cases "i < length xs") (simp_all add: nth_list_update list_update_beyond)
  show ?thesis
    using z by (auto simp: cell_def set_cell_def upd)
qed

lemma connectivity_step_zero:
  "cell (fst s) x y = 0 \<Longrightarrow> cell (fst (connectivity_step sz rnd s)) x y = 0"
  by (simp add: connectivity_step_def Let_def cell_set_cell_zero)

lemma connectivity_step_dims:
  "dims sz (fst s) \<Longrightarrow> dims sz (fst (connectivity_step sz rnd s))"
  by (simp add: connectivity_step_def Let_def dims_set_cell)

lemma ensureConnectivity_zero:
  "cell (fst s) x y = 0 \<Longrightarrow> cell (fst (ensureConnectivity sz rnd s)) x y = 0"
proof -
  have "cell (fst s) x y = 0 \<Longrightarrow> cell (fst (fold (\<lambda>i s. connectivity_step sz rnd s) is s)) x y = 0" for "is" :: "nat list"
    by (induction "is" arbitrary: s) (simp_all add: connectivity_step_zero)
  then show "cell (fst s) x y = 0 \<Longrightarrow> cell (fst (ensureConnectivity sz rnd s)) x y = 0"
    by (simp add: ensureConnectivity_def Let_def)
qed

lemma ensureConnectivity_dims:
  "dims sz (fst s) \<Longrightarrow> dims sz (fst (ensureConnectivity sz rnd s))"
proof -
  have "dims sz (fst s) \<Longrightarrow> dims sz (fst (fold (\<lambda>i s. connectivity_step sz rnd s) is s))" for "is" :: "nat list"
    by (induction "is" arbitrary: s) (simp_all add: connectivity_step_dims)
  then show "dims sz (fst s) \<Longrightarrow> dims sz (fst (ensureConnectivity sz rnd s))"
    by (simp add: ensureConnectivity_def Let_def)
qed

lemma density_cell_dims:
  "dims sz (fst s) \<Longrightarrow> dims sz (fst (density_cell sz p rnd x y s))"
  by (simp add: density_cell_def Let_def dims_set_cell)

lemma applyWallDensityModification_dims:
  "dims sz (fst s) \<Longrightarrow> dims sz (fst (applyWallDensityModification sz d rnd s))"
proof -
  have inner: "dims sz (fst s) \<Longrightarrow> dims sz (fst (fold (\<lambda>x s. density_cell sz p rnd x y s) xs s))"
    for p y xs s
    by (induction xs arbitrary: s) (simp_all add: density_cell_dims)
  have outer: "dims sz (fst s) \<Longrightarrow>
      dims sz (fst (fold (\<lambda>y s. fold (\<lambda>x s. density_cell sz p rnd x y s) xs s) ys s))"
    for p xs ys s
    by (induction ys arbitrary: s) (simp_all add: inner)
  show "dims sz (fst s) \<Longrightarrow> dims sz (fst (applyWallDensityModification sz d rnd s))"
    by (simp add: applyWallDensityModification_def Let_def outer)
qed

lemma carve_horizontal_props:
  "dims sz m \<Longrightarrow> dims sz (fst (carve_horizontal gx m x y))
     \<and> (\<forall>x' y'. cell m x' y' = 0 \<longrightarrow> cell (fst (carve_horizontal gx m x y)) x' y' = 0)
     \<and> snd (carve_horizontal gx m x y) = max x gx
     \<and> (isValidPosition sz x y \<and> isValidPosition sz gx y \<longrightarrow>
          (\<forall>x'. x \<le> x' \<and> x' < gx \<longrightarrow> cell (fst (carve_horizontal gx m x y)) x' y = 0))"
proof (induction gx m x y rule: carve_horizontal.induct)
  case (1 goalX maze x y)
  note unf = carve_horizontal.simps [of goalX maze x y]
  show ?case
  proof (cases "x < goalX")
    case False
    then show ?thesis using "1.prems" by (simp add: unf)
  next
    case True
    have d: "dims sz (set_cell maze x y 0)" using "1.prems" by (rule dims_set_cell)
    note ih = "1.IH" [OF True d]
    have v: "isValidPosition sz x y \<and> isValidPosition sz goalX y \<Longrightarrow> isValidPosition sz (x + 1) y"
      using True by (auto simp: isValidPosition_def)
    have here: "isValidPosition sz x y \<Longrightarrow> cell (set_cell maze x y 0) x y = 0"
      using cell_set_cell [OF "1.prems", of x y 0 x y] by simp
    have keep: "cell (fst (carve_horizontal goalX (set_cell maze x y 0) (x + 1) y)) x' y' = 0"
      if "cell (set_cell maze x y 0) x' y' = 0" for x' y'
      using ih that by blast
    have 1: "dims sz (fst (carve_horizontal goalX maze x y))"
      using True ih by (simp add: unf)
    have 2: "\<forall>x' y'. cell maze x' y' = 0 \<longrightarrow> cell (fst (carve_horizontal goalX maze x y)) x' y' = 0"
      using True keep by (simp add: unf cell_set_cell_zero)
    have 3: "snd (carve_horizontal goalX maze x y) = max x goalX"
      using True ih by (simp add: unf)
    have 4: "cell (fst (carve_horizontal goalX maze x y)) x' y = 0"
      if vv: "isValidPosition sz x y \<and> isValidPosition sz goalX y" and r: "x \<le> x' \<and> x' < goalX" for x'
    proof (cases "x' = x")
      case True
      with here vv keep \<open>x < goalX\<close> show ?thesis by (simp add: unf)
    next
      case False
      with r have "x + 1 \<le> x' \<and> x' < goalX" by simp
      with ih v [OF vv] vv \<open>x < goalX\<close> show ?thesis by (simp add: unf)
    qed
    show ?thesis using 1 2 3 4 by blast
  qed
qed

lemma carve_vertical_props:
  "dims sz m \<Longrightarrow> dims sz (fst (carve_vertical gy m x y))
     \<and> (\<forall>x' y'. cell m x' y' = 0 \<longrightarrow> cell (fst (carve_vertical gy m x y)) x' y' = 0)
     \<and> snd (carve_vertical gy m x y) = max y gy
     \<and> (isValidPosition sz x y \<and> isValidPosition sz x gy \<longrightarrow>
          (\<forall>y'. y \<le> y' \<and> y' < gy \<longrightarrow> cell (fst (carve_vertical gy m x y)) x y' = 0))"
proof (induction gy m x y rule: carve_vertical.induct)
  case (1 goalY maze x y)
  note unf = carve_vertical.simps [of goalY maze x y]
  show ?case
  proof (cases "y < goalY")
    case False
    then show ?thesis using "1.prems" by (simp add: unf)
  next
    case True
    have d: "dims sz (set_cell maze x y 0)" using "1.prems" by (rule dims_set_cell)
    note ih = "1.IH" [OF True d]
    have v: "isValidPosition sz x y \<and> isValidPosition sz x goalY \<Longrightarrow> isValidPosition sz x (y + 1)"
      using True by (auto simp: isValidPosition_def)
    have here: "isValidPosition sz x y \<Longrightarrow> cell (set_cell maze x y 0) x y = 0"
      using cell_set_cell [OF "1.prems", of x y 0 x y] by simp
    have keep: "cell (fst (carve_vertical goalY (set_cell maze x y 0) x (y + 1))) x' y' = 0"
      if "cell (set_cell maze x y 0) x' y' = 0" for x' y'
      using ih that by blast
    have 1: "dims sz (fst (carve_vertical goalY maze x y))"
      using True ih by (simp add: unf)
    have 2: "\<forall>x' y'. cell maze x' y' = 0 \<longrightarrow> cell (fst (carve_vertical goalY maze x y)) x' y' = 0"
      using True keep by (simp add: unf cell_set_cell_zero)
    have 3: "snd (carve_vertical goalY maze x y) = max y goalY"
      using True ih by (simp add: unf)
    have 4: "cell (fst (carve_vertical goalY maze x y)) x y' = 0"
      if vv: "isValidPosition sz x y \<and> isValidPosition sz x goalY" and r: "y \<le> y' \<and> y' < goalY" for y'
    proof (cases "y' = y")
      case True
      with here vv keep \<open>y < goalY\<close> show ?thesis by (simp add: unf)
    next
      case False
      with r have "y + 1 \<le> y' \<and> y' < goalY" by simp
      with ih v [OF vv] vv \<open>y < goalY\<close> show ?thesis by (simp add: unf)
    qed
    show ?thesis using 1 2 3 4 by blast
  qed
qed

lemma createPathToGoal_props:
  assumes "dims sz m" "1 \<le> sz"
  shows "dims sz (createPathToGoal sz m)"
    and "cell m x' y' = 0 \<Longrightarrow> cell (createPathToGoal sz m) x' y' = 0"
    and "0 \<le> x' \<Longrightarrow> x' < sz \<Longrightarrow> cell (createPathToGoal sz m) x' 0 = 0"
    and "0 \<le> y' \<Longrightarrow> y' < sz \<Longrightarrow> cell (createPathToGoal sz m) (sz - 1) y' = 0"
proof -
  define h where "h = carve_horizontal (sz - 1) m 0 0"
  define v where "v = carve_vertical (sz - 1) (fst h) (snd h) 0"
  have cp: "createPathToGoal sz m = set_cell (fst v) (sz - 1) (sz - 1) 0"
    by (simp add: createPathToGoal_def startPosition_def goalPosition_def Let_def h_def v_def
          split: prod.splits)
  have v00: "isValidPosition sz 0 0" "isValidPosition sz (sz - 1) 0" "isValidPosition sz (sz - 1) (sz - 1)"
    using assms(2) by (simp_all add: isValidPosition_def)
  note hp = carve_horizontal_props [OF assms(1), of "sz - 1" 0 0, folded h_def]
  have hx: "snd h = sz - 1" using hp assms(2) by simp
  have dh: "dims sz (fst h)" using hp by blast
  note vp = carve_vertical_props [OF dh, of "sz - 1" "snd h" 0, folded v_def, unfolded hx]
  have dv: "dims sz (fst v)" using vp by blast
  show "dims sz (createPathToGoal sz m)"
    unfolding cp using dv by (rule dims_set_cell)
  have keep_h: "cell (fst h) a b = 0" if "cell m a b = 0" for a b using hp that by blast
  have keep_v: "cell (fst v) a b = 0" if "cell (fst h) a b = 0" for a b using vp that by blast
  have keep: "cell (createPathToGoal sz m) a b = 0" if "cell (fst v) a b = 0" for a b
    unfolding cp using that by (rule cell_set_cell_zero)
  show "cell m x' y' = 0 \<Longrightarrow> cell (createPathToGoal sz m) x' y' = 0"
    by (intro keep keep_v keep_h)
  have goal: "cell (createPathToGoal sz m) (sz - 1) (sz - 1) = 0"
    unfolding cp using cell_set_cell [OF dv v00(3), of 0 "sz - 1" "sz - 1"] by simp
  have col: "cell (createPathToGoal sz m) (sz - 1) b = 0" if "0 \<le> b" "b < sz" for b
  proof (cases "b = sz - 1")
    case True
    with goal show ?thesis by simp
  next
    case False
    with that have "0 \<le> b \<and> b < sz - 1" by simp
    with vp v00 have "cell (fst v) (sz - 1) b = 0" by simp
    then show ?thesis by (rule keep)
  qed
  show "0 \<le> y' \<Longrightarrow> y' < sz \<Longrightarrow> cell (createPathToGoal sz m) (sz - 1) y' = 0"
    by (rule col)
  show "cell (createPathToGoal sz m) x' 0 = 0" if "0 \<le> x'" "x' < sz"
  proof (cases "x' = sz - 1")
    case True
    with col [of 0] assms(2) show ?thesis by simp
  next
    case False
    with that have "0 \<le> x' \<and> x' < sz - 1" by simp
    with hp v00 have "cell (fst h) x' 0 = 0" by simp
    then show ?thesis by (intro keep keep_v)
  qed
qed

lemma open_reach_row:
  assumes "\<forall>x. 0 \<le> x \<and> x < sz \<longrightarrow> cell maze x 0 = 0"
  shows "int n < sz \<Longrightarrow> open_reach sz maze (int n, 0)"
proof (induction n)
  case 0
  show ?case using reach_start [of sz maze] by (simp add: startPosition_def)
next
  case (Suc n)
  then have r: "open_reach sz maze (int n, 0)" by simp
  have d: "(1, 0) \<in> set directions" by (simp add: directions_def)
  have v: "isValidPosition sz (int n + 1) (0 + 0)"
    using Suc.prems by (simp add: isValidPosition_def)
  have c: "cell maze (int n + 1) (0 + 0) = 0"
    using assms Suc.prems by simp
  from reach_step [OF r d v c] show ?case by (simp add: add.commute)
qed

lemma open_reach_column:
  assumes "\<forall>y. 0 \<le> y \<and> y < sz \<longrightarrow> cell maze x y = 0"
    and "open_reach sz maze (x, 0)" and "0 \<le> x" "x < sz"
  shows "int n < sz \<Longrightarrow> open_reach sz maze (x, int n)"
proof (induction n)
  case 0
  show ?case using assms(2) by simp
next
  case (Suc n)
  then have r: "open_reach sz maze (x, int n)" by simp
  have d: "(0, 1) \<in> set directions" by (simp add: directions_def)
  have v: "isValidPosition sz (x + 0) (int n + 1)"
    using Suc.prems assms(3,4) by (simp add: isValidPosition_def)
  have c: "cell maze (x + 0) (int n + 1) = 0"
    using assms(1) Suc.prems by simp
  from reach_step [OF r d v c] show ?case by (simp add: add.commute)
qed

lemma createPathToGoal_reach:
  assumes "dims sz m" "1 \<le> sz"
  shows "open_reach sz (createPathToGoal sz m) (goalPosition sz)"
proof -
  let ?g = "createPathToGoal sz m"
  have row: "\<forall>x. 0 \<le> x \<and> x < sz \<longrightarrow> cell ?g x 0 = 0"
    using createPathToGoal_props(3) [OF assms] by blast
  have col: "\<forall>y. 0 \<le> y \<and> y < sz \<longrightarrow> cell ?g (sz - 1) y = 0"
    using createPathToGoal_props(4) [OF assms] by blast
  have "open_reach sz ?g (int (nat (sz - 1)), 0)"
    by (rule open_reach_row [OF row]) (use assms(2) in simp)
  then have r0: "open_reach sz ?g (sz - 1, 0)" using assms(2) by simp
  have "open_reach sz ?g (sz - 1, int (nat (sz - 1)))"
    by (rule open_reach_column [OF col r0]) (use assms(2) in simp_all)
  then show ?thesis using assms(2) by (simp add: goalPosition_def)
qed

lemma finite_unmarked: "finite (unmarked sz v)"
proof -
  have "unmarked sz v \<subseteq> {0..<sz} \<times> {0..<sz}"
    by (auto simp: unmarked_def isValidPosition_def)
  then show ?thesis by (rule finite_subset) simp
qed

lemma unmarked_set_cell:
  assumes "dims sz v" "isValidPosition sz x y"
  shows "unmarked sz (set_cell v x y True) = unmarked sz v - {(x, y)}"
proof (rule set_eqI)
  fix p :: position
  obtain a b where p: "p = (a, b)" by (cases p)
  show "p \<in> unmarked sz (set_cell v x y True) \<longleftrightarrow> p \<in> unmarked sz v - {(x, y)}"
  proof (cases "isValidPosition sz a b")
    case True
    have "cell (set_cell v x y True) a b = (if a = x \<and> b = y then True else cell v a b)"
      using assms True by (rule cell_set_cell_valid)
    then show ?thesis by (simp add: unmarked_def p True)
  next
    case False
    then show ?thesis by (simp add: unmarked_def p)
  qed
qed

lemma marked_set_cell:
  assumes "dims sz v" "isValidPosition sz x y"
  shows "marked sz (set_cell v x y True) = insert (x, y) (marked sz v)"
proof (rule set_eqI)
  fix p :: position
  obtain a b where p: "p = (a, b)" by (cases p)
  show "p \<in> marked sz (set_cell v x y True) \<longleftrightarrow> p \<in> insert (x, y) (marked sz v)"
  proof (cases "isValidPosition sz a b")
    case True
    have "cell (set_cell v x y True) a b = (if a = x \<and> b = y then True else cell v a b)"
      using assms True by (rule cell_set_cell_valid)
    then show ?thesis using assms(2) by (auto simp: marked_def p True)
  next
    case False
    then show ?thesis using assms(2) by (auto simp: marked_def p)
  qed
qed

lemma card_unmarked_set_cell:
  assumes "dims sz v" "isValidPosition sz x y" "\<not> cell v x y"
  shows "Suc (card (unmarked sz (set_cell v x y True))) = card (unmarked sz v)"
proof -
  have "(x, y) \<in> unmarked sz v" using assms by (simp add: unmarked_def)
  then have "Suc (card (unmarked sz v - {(x, y)})) = card (unmarked sz v)"
    using finite_unmarked [of sz v] by (intro card_Suc_Diff1)
  then show ?thesis
    by (simp only: unmarked_set_cell [OF assms(1,2)])
qed

lemma unvisited_neighbors_fold:
  "p \<in> set (fold (\<lambda>(dx, dy) neighbors.
             let neighborX = cx + dx * 2;
                 neighborY = cy + dy * 2;
                 wallX = cx + dx;
                 wallY = cy + dy
             in if isValidPosition sz neighborX neighborY \<and> \<not> cell v neighborX neighborY
                then neighbors @ [(neighborX, neighborY, wallX, wallY)]
                else neighbors) ds acc) \<Longrightarrow>
     p \<in> set acc \<or> (isValidPosition sz (fst p) (fst (snd p)) \<and> \<not> cell v (fst p) (fst (snd p)))"
proof (induction ds arbitrary: acc)
  case Nil
  then show ?case by simp
next
  case (Cons d ds)
  obtain dx dy where d: "d = (dx, dy)" by (cases d)
  show ?case
  proof (cases "isValidPosition sz (cx + dx * 2) (cy + dy * 2) \<and> \<not> cell v (cx + dx * 2) (cy + dy * 2)")
    case True
    with Cons.prems d Cons.IH [of "acc @ [(cx + dx * 2, cy + dy * 2, cx + dx, cy + dy)]"]
    show ?thesis by (auto simp: Let_def)
  next
    case False
    with Cons.prems d Cons.IH [of acc] show ?thesis by (auto simp: Let_def)
  qed
qed

lemma unvisited_neighbors_valid:
  "(nx, ny, wx, wy) \<in> set (unvisited_neighbors sz v cx cy) \<Longrightarrow>
     isValidPosition sz nx ny \<and> \<not> cell v nx ny"
  unfolding unvisited_neighbors_def by (drule unvisited_neighbors_fold) simp

lemma random_index:
  assumes "0 \<le> r" "r < 1" "0 < n"
  shows "nat \<lfloor>r * real n\<rfloor> < n"
proof -
  have "r * real n < real n" using assms by simp
  then have "\<lfloor>r * real n\<rfloor> < int n" by (simp add: floor_less_iff)
  moreover have "0 \<le> \<lfloor>r * real n\<rfloor>" using assms by simp
  ultimately show ?thesis by linarith
qed

lemma carve_step_dims:
  "dims sz (cs_visited st) \<Longrightarrow> dims sz (cs_maze st) \<Longrightarrow>
     dims sz (cs_visited (carve_step sz rnd st)) \<and> dims sz (cs_maze (carve_step sz rnd st))"
  by (simp add: carve_step_def Let_def dims_set_cell split: prod.splits)

lemma carve_step_measure:
  assumes "unit_draws rnd" "dims sz (cs_visited st)"
    and "cs_stack (carve_step sz rnd st) \<noteq> []"
  shows "2 * card (unmarked sz (cs_visited (carve_step sz rnd st))) + length (cs_stack (carve_step sz rnd st))
           < 2 * card (unmarked sz (cs_visited st)) + length (cs_stack st)"
proof -
  define ns where "ns = unvisited_neighbors sz (cs_visited st) (cs_currentX st) (cs_currentY st)"
  show ?thesis
  proof (cases "length ns > 0")
    case True
    define i where "i = nat \<lfloor>rnd (cs_rng st) * real (length ns)\<rfloor>"
    have "i < length ns"
      unfolding i_def using assms(1) True by (intro random_index) (auto simp: unit_draws_def)
    then have mem: "ns ! i \<in> set ns" by simp
    obtain nx ny wx wy where c: "ns ! i = (nx, ny, wx, wy)" by (cases "ns ! i") auto
    from mem c have "(nx, ny, wx, wy) \<in> set ns" by simp
    then have v: "isValidPosition sz nx ny" "\<not> cell (cs_visited st) nx ny"
      unfolding ns_def by (auto dest: unvisited_neighbors_valid)
    have vis: "cs_visited (carve_step sz rnd st) = set_cell (cs_visited st) nx ny True"
      and stk: "cs_stack (carve_step sz rnd st) = cs_stack st @ [(cs_currentX st, cs_currentY st)]"
      using True c by (simp_all add: carve_step_def Let_def ns_def [symmetric] i_def [symmetric])
    show ?thesis
      using card_unmarked_set_cell [OF assms(2) v] by (simp add: vis stk)
  next
    case False
    show ?thesis
    proof (cases "length (cs_stack st) > 0")
      case True
      with False have "cs_visited (carve_step sz rnd st) = cs_visited st"
        "cs_stack (carve_step sz rnd st) = butlast (cs_stack st)"
        by (simp_all add: carve_step_def Let_def ns_def [symmetric])
      with True show ?thesis by simp
    next
      case nostack: False
      with False have "carve_step sz rnd st = st"
        by (simp add: carve_step_def Let_def ns_def [symmetric])
      with nostack assms(3) show ?thesis by simp
    qed
  qed
qed

lemma carve_loop_total:
  assumes "unit_draws rnd"
  shows "dims sz (cs_visited st) \<Longrightarrow> dims sz (cs_maze st) \<Longrightarrow>
           \<exists>st'. carve_loop sz rnd st = Some st' \<and> dims sz (cs_maze st')"
proof (induction st rule: measure_induct_rule
         [where f = "\<lambda>st. 2 * card (unmarked sz (cs_visited st)) + length (cs_stack st)"])
  case (less st)
  let ?s = "carve_step sz rnd st"
  have d: "dims sz (cs_visited ?s)" "dims sz (cs_maze ?s)"
    using carve_step_dims [OF less.prems] by simp_all
  show ?case
  proof (cases "cs_stack ?s = []")
    case True
    then have "carve_loop sz rnd st = Some ?s"
      by (subst carve_loop.simps) simp
    with d show ?thesis by simp
  next
    case False
    then have "carve_loop sz rnd st = carve_loop sz rnd ?s"
      by (subst carve_loop.simps) simp
    moreover have "\<exists>st'. carve_loop sz rnd ?s = Some st' \<and> dims sz (cs_maze st')"
      using carve_step_measure [OF assms less.prems(1) False] d by (intro less.IH)
    ultimately show ?thesis by simp
  qed
qed

lemma cell_set_cell_mono:
  assumes "dims sz v" "isValidPosition sz x y" "isValidPosition sz a b" "cell v a b"
  shows "cell (set_cell v x y True) a b"
  using cell_set_cell_valid [OF assms(1,2,3), of True] assms(4) by simp

lemma closed_cell_mono:
  assumes "dims sz v" "isValidPosition sz x y" "closed_cell sz maze v p"
  shows "closed_cell sz maze (set_cell v x y True) p"
  using assms(3) unfolding closed_cell_def
  by (auto intro: cell_set_cell_mono [OF assms(1,2)])

lemma hasPath_visit_mid:
  assumes m: "bfs_mid sz maze current D N s" and d: "d \<in> set directions"
  shows "bfs_mid sz maze current (insert d D) N (hasPath_visit sz maze current d s)"
proof -
  obtain v q where s: "s = (v, q)" by (cases s)
  obtain cx cy where cur: "current = (cx, cy)" by (cases current)
  obtain dx dy where dd: "d = (dx, dy)" by (cases d)
  let ?x = "cx + dx" and ?y = "cy + dy"
  from m have dv: "dims sz v"
    and mq: "\<forall>p \<in> set q. p \<in> marked sz v \<and> open_reach sz maze p"
    and cl: "\<forall>p \<in> marked sz v - set q - {(cx, cy)}. p \<noteq> goalPosition sz \<and> closed_cell sz maze v p"
    and st: "startPosition \<in> marked sz v"
    and cm: "(cx, cy) \<in> marked sz v" and cr: "open_reach sz maze (cx, cy)"
    and cg: "(cx, cy) \<noteq> goalPosition sz"
    and dn: "\<forall>d \<in> D. isValidPosition sz (cx + fst d) (cy + snd d)
          \<and> cell maze (cx + fst d) (cy + snd d) = 0 \<longrightarrow> cell v (cx + fst d) (cy + snd d)"
    and n: "card (unmarked sz v) + length q = N"
    unfolding bfs_mid_def s cur by simp_all
  show ?thesis
  proof (cases "isValidPosition sz ?x ?y \<and> \<not> cell v ?x ?y \<and> cell maze ?x ?y = 0")
    case False
    then have same: "hasPath_visit sz maze (cx, cy) (dx, dy) (v, q) = (v, q)"
      by (simp add: hasPath_visit_def Let_def)
    from False have "isValidPosition sz ?x ?y \<and> cell maze ?x ?y = 0 \<longrightarrow> cell v ?x ?y" by blast
    with dn have "\<forall>d \<in> insert (dx, dy) D. isValidPosition sz (cx + fst d) (cy + snd d)
          \<and> cell maze (cx + fst d) (cy + snd d) = 0 \<longrightarrow> cell v (cx + fst d) (cy + snd d)"
      by simp
    with dv mq cl st cm cr cg n show ?thesis
      unfolding s cur dd by (simp add: same bfs_mid_def)
  next
    case True
    then have vx: "isValidPosition sz ?x ?y" and nv: "\<not> cell v ?x ?y" and op: "cell maze ?x ?y = 0"
      by simp_all
    let ?v = "set_cell v ?x ?y True"
    have res: "hasPath_visit sz maze (cx, cy) (dx, dy) (v, q) = (?v, q @ [(?x, ?y)])"
      using True by (simp add: hasPath_visit_def Let_def)
    have dv': "dims sz ?v" using dv by (rule dims_set_cell)
    have mk: "marked sz ?v = insert (?x, ?y) (marked sz v)"
      using dv vx by (rule marked_set_cell)
    have rn: "open_reach sz maze (?x, ?y)"
      using cr d vx op unfolding dd by (rule reach_step)
    have mq': "\<forall>p \<in> set (q @ [(?x, ?y)]). p \<in> marked sz ?v \<and> open_reach sz maze p"
      using mq rn by (auto simp: mk)
    have cl': "\<forall>p \<in> marked sz ?v - set (q @ [(?x, ?y)]) - {(cx, cy)}.
        p \<noteq> goalPosition sz \<and> closed_cell sz maze ?v p"
    proof
      fix p assume "p \<in> marked sz ?v - set (q @ [(?x, ?y)]) - {(cx, cy)}"
      then have "p \<in> marked sz v - set q - {(cx, cy)}" by (auto simp: mk)
      with cl have "p \<noteq> goalPosition sz" "closed_cell sz maze v p" by simp_all
      then show "p \<noteq> goalPosition sz \<and> closed_cell sz maze ?v p"
        using closed_cell_mono [OF dv vx] by simp
    qed
    have dn': "\<forall>d \<in> insert (dx, dy) D. isValidPosition sz (cx + fst d) (cy + snd d)
          \<and> cell maze (cx + fst d) (cy + snd d) = 0 \<longrightarrow> cell ?v (cx + fst d) (cy + snd d)"
    proof
      fix e assume e: "e \<in> insert (dx, dy) D"
      show "isValidPosition sz (cx + fst e) (cy + snd e)
          \<and> cell maze (cx + fst e) (cy + snd e) = 0 \<longrightarrow> cell ?v (cx + fst e) (cy + snd e)"
      proof (cases "e = (dx, dy)")
        case True
        have "cell ?v ?x ?y" using cell_set_cell_valid [OF dv vx vx, of True] by simp
        with True show ?thesis by simp
      next
        case False
        with e have "e \<in> D" by simp
        with dn show ?thesis using cell_set_cell_mono [OF dv vx] by blast
      qed
    qed
    have n': "card (unmarked sz ?v) + length (q @ [(?x, ?y)]) = N"
      using card_unmarked_set_cell [OF dv vx nv] n by simp
    have st': "startPosition \<in> marked sz ?v" and cm': "(cx, cy) \<in> marked sz ?v"
      using st cm by (simp_all add: mk)
    show ?thesis
      unfolding s cur dd
      using dv' mq' cl' st' cm' cr cg dn' n' by (simp add: res bfs_mid_def)
  qed
qed

lemma hasPath_visit_fold:
  "bfs_mid sz maze current D N s \<Longrightarrow> set ds \<subseteq> set directions \<Longrightarrow>
     bfs_mid sz maze current (D \<union> set ds) N (fold (hasPath_visit sz maze current) ds s)"
proof (induction ds arbitrary: D s)
  case Nil
  then show ?case by simp
next
  case (Cons d ds)
  from Cons.prems have "bfs_mid sz maze current (insert d D) N (hasPath_visit sz maze current d s)"
    by (intro hasPath_visit_mid) simp_all
  from Cons.IH [OF this] Cons.prems(2) show ?case by simp
qed

lemma bfs_inv_to_mid:
  assumes "bfs_inv sz maze (v, current # q)" "current \<noteq> goalPosition sz"
  shows "bfs_mid sz maze current {} (card (unmarked sz v) + length q) (v, q)"
  using assms unfolding bfs_inv_def bfs_mid_def by auto

lemma bfs_mid_to_inv:
  assumes "bfs_mid sz maze current (set directions) N s"
  shows "bfs_inv sz maze s"
proof -
  from assms have "closed_cell sz maze (fst s) current"
    unfolding bfs_mid_def closed_cell_def by blast
  with assms show ?thesis
    unfolding bfs_mid_def bfs_inv_def by blast
qed

lemma bfs_inv_empty:
  assumes i: "bfs_inv sz maze (v, [])" and r: "open_reach sz maze p"
  shows "p \<in> marked sz v"
  using r
proof (induction rule: open_reach.induct)
  case reach_start
  show ?case using i by (simp add: bfs_inv_def)
next
  case (reach_step x y dx dy)
  from i reach_step.IH have "closed_cell sz maze v (x, y)"
    by (simp add: bfs_inv_def)
  with reach_step.hyps have "cell v (x + dx) (y + dy)"
    unfolding closed_cell_def by force
  with reach_step.hyps show ?case by (simp add: marked_def)
qed

lemma bfs_inv_empty_goal:
  assumes "bfs_inv sz maze (v, [])"
  shows "\<not> open_reach sz maze (goalPosition sz)"
proof
  assume "open_reach sz maze (goalPosition sz)"
  then have "goalPosition sz \<in> marked sz v" using assms by (intro bfs_inv_empty)
  with assms show False by (auto simp: bfs_inv_def)
qed

lemma hasPath_loop_correct:
  "bfs_inv sz maze s \<Longrightarrow> hasPath_loop sz maze s = Some (open_reach sz maze (goalPosition sz))"
proof (induction s rule: measure_induct_rule
         [where f = "\<lambda>s. card (unmarked sz (fst s)) + length (snd s)"])
  case (less s)
  obtain v q where s: "s = (v, q)" by (cases s)
  show ?case
  proof (cases q)
    case Nil
    with less.prems s have "\<not> open_reach sz maze (goalPosition sz)"
      by (intro bfs_inv_empty_goal [of sz maze v]) simp
    with Nil s show ?thesis by (subst hasPath_loop.simps) simp
  next
    case (Cons current rest)
    show ?thesis
    proof (cases "current = goalPosition sz")
      case True
      from less.prems have "open_reach sz maze current"
        by (simp add: bfs_inv_def s Cons)
      with True Cons s show ?thesis by (subst hasPath_loop.simps) simp
    next
      case False
      let ?s = "fold (hasPath_visit sz maze current) directions (v, rest)"
      have ng: "\<not> (fst current = fst (goalPosition sz) \<and> snd current = snd (goalPosition sz))"
        using False by (simp add: prod_eq_iff)
      have unf: "hasPath_loop sz maze s = hasPath_loop sz maze ?s"
        using ng by (subst hasPath_loop.simps) (auto simp: s Cons)
      have "bfs_mid sz maze current {} (card (unmarked sz v) + length rest) (v, rest)"
        using less.prems False unfolding s Cons by (rule bfs_inv_to_mid)
      from hasPath_visit_fold [OF this, of directions]
      have mid: "bfs_mid sz maze current (set directions) (card (unmarked sz v) + length rest) ?s"
        by simp
      then have inv: "bfs_inv sz maze ?s" by (rule bfs_mid_to_inv)
      have "card (unmarked sz (fst ?s)) + length (snd ?s) = card (unmarked sz v) + length rest"
        using mid by (simp add: bfs_mid_def)
      then have "card (unmarked sz (fst ?s)) + length (snd ?s) < card (unmarked sz (fst s)) + length (snd s)"
        by (simp add: s Cons)
      from less.IH [OF this inv] unf show ?thesis by simp
    qed
  qed
qed

lemma hasPath_correct:
  assumes "1 \<le> sz"
  shows "hasPath sz maze = Some (open_reach sz maze (goalPosition sz))"
proof -
  let ?init = "replicate (nat sz) (replicate (nat sz) False)"
  let ?v = "set_cell ?init (fst startPosition) (snd startPosition) True"
  have dinit: "dims sz ?init" by (rule dims_replicate)
  have v0: "isValidPosition sz (fst startPosition) (snd startPosition)"
    using assms by (simp add: isValidPosition_def startPosition_def)
  have none: "marked sz ?init = {}"
    by (auto simp: marked_def cell_def isValidPosition_def)
  have mk: "marked sz ?v = {startPosition}"
    using marked_set_cell [OF dinit v0] none by simp
  have dv: "dims sz ?v" using dinit by (rule dims_set_cell)
  have "bfs_inv sz maze (?v, [startPosition])"
    using dv reach_start [of sz maze] by (simp add: bfs_inv_def mk)
  then show ?thesis
    unfolding hasPath_def by (rule hasPath_loop_correct)
qed

lemma open_reach_path:
  assumes "open_reach sz maze p" "1 \<le> sz" "cell maze (fst startPosition) (snd startPosition) = 0"
  shows "\<exists>ps. open_path sz maze ps \<and> last ps = p"
  using assms(1)
proof (induction rule: open_reach.induct)
  case reach_start
  have "open_path sz maze [startPosition]"
    using assms(2,3) by (simp add: open_path_def isValidPosition_def startPosition_def)
  then show ?case by (intro exI [of _ "[startPosition]"]) simp
next
  case (reach_step x y dx dy)
  then obtain ps where ps: "open_path sz maze ps" "last ps = (x, y)" by blast
  let ?ps = "ps @ [(x + dx, y + dy)]"
  have ne: "ps \<noteq> []" using ps(1) by (simp add: open_path_def)
  have adj: "(fst (?ps ! Suc i) - fst (?ps ! i), snd (?ps ! Suc i) - snd (?ps ! i)) \<in> set directions"
    if "Suc i < length ?ps" for i
  proof (cases "Suc i < length ps")
    case True
    then show ?thesis using ps(1) by (simp add: open_path_def nth_append)
  next
    case False
    with that have i: "Suc i = length ps" by simp
    then have "i = length ps - 1" by simp
    then have "ps ! i = last ps" using ne by (simp add: last_conv_nth)
    with i ps(2) reach_step.hyps(2) show ?thesis by (simp add: nth_append)
  qed
  have "open_path sz maze ?ps"
    unfolding open_path_def
    using ps(1) ne reach_step.hyps(3,4) adj by (simp add: open_path_def)
  then show ?case by (intro exI [of _ ?ps]) simp
qed

lemma generateMaze_result:
  assumes "unit_draws rnd" "1 \<le> sz"
  shows "\<exists>g k' m. generateMaze sz wallDensity rnd k = Some (g, k')
           \<and> dims sz g
           \<and> (hasPath sz m = Some True \<and> g = m \<or> hasPath sz m = Some False \<and> g = createPathToGoal sz m)
           \<and> hasPath sz g = Some True
           \<and> open_reach sz g (goalPosition sz)
           \<and> cell g (fst startPosition) (snd startPosition) = 0
           \<and> cell g (fst (goalPosition sz)) (snd (goalPosition sz)) = 0"
proof -
  let ?st0 = "\<lparr>cs_maze = set_cell (replicate (nat sz) (replicate (nat sz) 1))
                   (fst startPosition) (snd startPosition) 0,
               cs_visited = set_cell (replicate (nat sz) (replicate (nat sz) False))
                   (fst startPosition) (snd startPosition) True,
               cs_stack = [], cs_currentX = fst startPosition, cs_currentY = snd startPosition,
               cs_rng = k\<rparr>"
  have "dims sz (cs_visited ?st0)" "dims sz (cs_maze ?st0)"
    by (simp_all add: dims_set_cell dims_replicate)
  from carve_loop_total [OF assms(1) this] obtain st where
    cl: "carve_loop sz rnd ?st0 = Some st" and dst: "dims sz (cs_maze st)" by blast
  define s1 where "s1 = applyWallDensityModification sz wallDensity rnd (cs_maze st, cs_rng st)"
  define maze2 where "maze2 = set_cell (fst s1) (fst startPosition) (snd startPosition) 0"
  define maze3 where "maze3 = set_cell maze2 (fst (goalPosition sz)) (snd (goalPosition sz)) 0"
  define s4 where "s4 = ensureConnectivity sz rnd (maze3, snd s1)"
  have vs: "isValidPosition sz (fst startPosition) (snd startPosition)"
    and vg: "isValidPosition sz (fst (goalPosition sz)) (snd (goalPosition sz))"
    using assms(2) by (simp_all add: isValidPosition_def startPosition_def goalPosition_def)
  have d1: "dims sz (fst s1)"
    unfolding s1_def using dst by (intro applyWallDensityModification_dims) simp
  have d2: "dims sz maze2" unfolding maze2_def using d1 by (rule dims_set_cell)
  have d3: "dims sz maze3" unfolding maze3_def using d2 by (rule dims_set_cell)
  have d4: "dims sz (fst s4)"
    unfolding s4_def using d3 by (intro ensureConnectivity_dims) simp
  have "cell maze2 (fst startPosition) (snd startPosition) = 0"
    unfolding maze2_def using cell_set_cell_valid [OF d1 vs vs, of 0] by simp
  then have z3s: "cell maze3 (fst startPosition) (snd startPosition) = 0"
    unfolding maze3_def by (rule cell_set_cell_zero)
  have z3g: "cell maze3 (fst (goalPosition sz)) (snd (goalPosition sz)) = 0"
    unfolding maze3_def using cell_set_cell_valid [OF d2 vg vg, of 0] by simp
  have z4s: "cell (fst s4) (fst startPosition) (snd startPosition) = 0"
    unfolding s4_def using z3s by (intro ensureConnectivity_zero) simp
  have z4g: "cell (fst s4) (fst (goalPosition sz)) (snd (goalPosition sz)) = 0"
    unfolding s4_def using z3g by (intro ensureConnectivity_zero) simp
  have hp: "hasPath sz m = Some (open_reach sz m (goalPosition sz))" for m
    using assms(2) by (rule hasPath_correct)
  have gen: "generateMaze sz wallDensity rnd k =
      (if \<not> open_reach sz (fst s4) (goalPosition sz)
       then Some (createPathToGoal sz (fst s4), snd s4) else Some s4)"
    unfolding generateMaze_def Let_def cl
    by (simp add: hp s1_def [symmetric] maze2_def [symmetric] maze3_def [symmetric] s4_def [symmetric])
  show ?thesis
  proof (cases "open_reach sz (fst s4) (goalPosition sz)")
    case True
    then have "generateMaze sz wallDensity rnd k = Some (fst s4, snd s4)"
      by (simp add: gen)
    with True d4 z4s z4g hp [of "fst s4"] show ?thesis
      by (intro exI [of _ "fst s4"] exI [of _ "snd s4"]) simp
  next
    case False
    let ?g = "createPathToGoal sz (fst s4)"
    have g: "generateMaze sz wallDensity rnd k = Some (?g, snd s4)"
      using False by (simp add: gen)
    have r: "open_reach sz ?g (goalPosition sz)"
      using d4 assms(2) by (rule createPathToGoal_reach)
    note cp = createPathToGoal_props [OF d4 assms(2)]
    have "hasPath sz (fst s4) = Some False" using False by (simp add: hp)
    with g r cp(1) cp(2) [OF z4s] cp(2) [OF z4g] hp [of ?g] show ?thesis
      by (intro exI [of _ ?g] exI [of _ "snd s4"] exI [of _ "fst s4"]) simp
  qed
qed

section \<open>The claims about the maze generator\<close>

text \<open>
  Claim C1. For every size of at least 2, every wall density and every sequence of draws in
  [0, 1), \<open>generateMaze\<close> returns a grid of \<open>size\<close> rows of \<open>size\<close> cells. The grid is the one
  built by the passes when \<open>hasPath\<close> finds a path in it, and otherwise that grid with the path
  of \<open>createPathToGoal\<close> carved. On the returned grid \<open>hasPath\<close>, the breadth-first search
  from (0, 0) over open cells in the four directions, returns true, and there is a walk of
  open cells from (0, 0) to (size - 1, size - 1).
\<close>

theorem generateMaze_reachable:
  assumes "2 \<le> sz" and "unit_draws rnd"
  shows "\<exists>g k' m. generateMaze sz wallDensity rnd k = Some (g, k')
           \<and> dims sz g
           \<and> (hasPath sz m = Some True \<and> g = m
               \<or> hasPath sz m = Some False \<and> g = createPathToGoal sz m)
           \<and> hasPath sz g = Some True
           \<and> open_reach sz g (sz - 1, sz - 1)
           \<and> (\<exists>ps. open_path sz g ps \<and> hd ps = (0, 0) \<and> last ps = (sz - 1, sz - 1))"
proof -
  from assms(1) have 1: "1 \<le> sz" by simp
  from generateMaze_result [OF assms(2) 1, of wallDensity k] obtain g k' m where
    g: "generateMaze sz wallDensity rnd k = Some (g, k')" "dims sz g"
      "hasPath sz m = Some True \<and> g = m \<or> hasPath sz m = Some False \<and> g = createPathToGoal sz m"
      "hasPath sz g = Some True" "open_reach sz g (goalPosition sz)"
      "cell g (fst startPosition) (snd startPosition) = 0"
    by blast
  from open_reach_path [OF g(5) 1 g(6)] obtain ps where
    ps: "open_path sz g ps" "last ps = goalPosition sz" by blast
  then have "hd ps = (0, 0)" by (simp add: open_path_def startPosition_def)
  with g ps show ?thesis
    unfolding goalPosition_def by blast
qed

theorem generateMaze_reachable_witness:
  "(2 :: int) \<le> 5 \<and> unit_draws (\<lambda>_. 0)
   \<and> generateMaze 5 (3 / 10) (\<lambda>_. 0) 0 =
       Some ([[0, 0, 0, 0, 0], [1, 1, 1, 0, 0], [0, 0, 0, 1, 0], [0, 1, 0, 1, 0], [0, 1, 0, 0, 0]], 10)
   \<and> hasPath 5 [[0, 0, 0, 0, 0], [1, 1, 1, 0, 0], [0, 0, 0, 1, 0], [0, 1, 0, 1, 0], [0, 1, 0, 0, 0]] =
       Some True
   \<and> open_reach 5 [[0, 0, 0, 0, 0], [1, 1, 1, 0, 0], [0, 0, 0, 1, 0], [0, 1, 0, 1, 0], [0, 1, 0, 0, 0]]
       (4, 4)"
proof -
  have s: "(2 :: int) \<le> 5" by simp
  have u: "unit_draws (\<lambda>_. 0)" by (simp add: unit_draws_def)
  have e: "generateMaze 5 (3 / 10) (\<lambda>_. 0) 0 =
       Some ([[0, 0, 0, 0, 0], [1, 1, 1, 0, 0], [0, 0, 0, 1, 0], [0, 1, 0, 1, 0], [0, 1, 0, 0, 0]], 10)"
    by code_simp
  from generateMaze_reachable [OF s u, of "3 / 10" 0] e show ?thesis
    using s u by auto
qed

text \<open>
  Claim C6. For every size of at least 2, every wall density and every sequence of draws in
  [0, 1), the grid that \<open>generateMaze\<close> returns has the cell (0, 0) and the cell
  (size - 1, size - 1) open, and the generator built from it reports neither as a wall.
\<close>

theorem generateMaze_boundary_open:
  assumes "2 \<le> sz" and "unit_draws rnd"
  shows "\<exists>g k'. generateMaze sz wallDensity rnd k = Some (g, k')
           \<and> dims sz g \<and> cell g 0 0 = 0 \<and> cell g (sz - 1) (sz - 1) = 0
           \<and> (\<exists>gen. new_MazeGenerator sz wallDensity rnd k = Some (Inr (gen, k'))
                \<and> getMaze gen = g
                \<and> \<not> isWall gen 0 0 \<and> \<not> isWall gen (sz - 1) (sz - 1))"
proof -
  from assms(1) have 1: "1 \<le> sz" by simp
  from generateMaze_result [OF assms(2) 1, of wallDensity k] obtain g k' where
    g: "generateMaze sz wallDensity rnd k = Some (g, k')" "dims sz g"
      "cell g (fst startPosition) (snd startPosition) = 0"
      "cell g (fst (goalPosition sz)) (snd (goalPosition sz)) = 0"
    by blast
  let ?gen = "\<lparr>gen_maze = g, gen_size = sz, gen_wallDensity = wallDensity,
               gen_startPosition = startPosition, gen_goalPosition = goalPosition sz\<rparr>"
  have n: "new_MazeGenerator sz wallDensity rnd k = Some (Inr (?gen, k'))"
    using assms(1) g(1) by (simp add: new_MazeGenerator_def)
  have z: "cell g 0 0 = 0" "cell g (sz - 1) (sz - 1) = 0"
    using g(3,4) by (simp_all add: startPosition_def goalPosition_def)
  have w: "\<not> isWall ?gen 0 0" "\<not> isWall ?gen (sz - 1) (sz - 1)"
    using z assms(1) by (simp_all add: isWall_def isValidPosition_def)
  have "getMaze ?gen = g" by (simp add: getMaze_def)
  with g(1,2) z n w show ?thesis by blast
qed

theorem generateMaze_boundary_open_witness:
  "(2 :: int) \<le> 2 \<and> unit_draws (\<lambda>_. 0)
   \<and> generateMaze 2 (3 / 10) (\<lambda>_. 0) 0 = Some ([[0, 0], [1, 0]], 0)
   \<and> cell [[0 :: nat, 0], [1, 0]] 0 0 = 0 \<and> cell [[0 :: nat, 0], [1, 0]] (2 - 1) (2 - 1) = 0"
proof -
  have s: "(2 :: int) \<le> 2" by simp
  have u: "unit_draws (\<lambda>_. 0)" by (simp add: unit_draws_def)
  have e: "generateMaze 2 (3 / 10) (\<lambda>_. 0) 0 = Some ([[0, 0], [1, 0]], 0)"
    by code_simp
  from generateMaze_boundary_open [OF s u, of "3 / 10" 0] e show ?thesis
    using s u by auto
qed

text \<open>
  Claim C5, as amended. Neither constructor validates its parameters. \<open>MazeGenerator\<close>
  returns a generator for every size of at least 1 and every wall density, inside [0, 1] or
  not, and keeps both as given; a size of 0 or below ends in the TypeError or RangeError of
  the array operations. \<open>QLearningAgent\<close> keeps every learning rate, discount factor and
  exploration rate as given, with an empty table.
\<close>

theorem constructors_accept:
  assumes "1 \<le> sz" and "unit_draws rnd"
  shows "(\<exists>gen k'. new_MazeGenerator sz wallDensity rnd k = Some (Inr (gen, k'))
            \<and> gen_size gen = sz \<and> gen_wallDensity gen = wallDensity \<and> dims sz (gen_maze gen)
            \<and> gen_startPosition gen = (0, 0) \<and> gen_goalPosition gen = (sz - 1, sz - 1))
       \<and> new_MazeGenerator 0 wallDensity rnd k = Some (Inl TypeError)
       \<and> new_MazeGenerator (- sz) wallDensity rnd k = Some (Inl RangeError)
       \<and> new_QLearningAgent n lr df er =
            \<lparr>qTable = [], learningRate = lr, discountFactor = df, explorationRate = er,
             mazeSize = n\<rparr>"
proof -
  from generateMaze_result [OF assms(2,1), of wallDensity k] obtain g k' where
    g: "generateMaze sz wallDensity rnd k = Some (g, k')" "dims sz g"
    by blast
  let ?gen = "\<lparr>gen_maze = g, gen_size = sz, gen_wallDensity = wallDensity,
               gen_startPosition = startPosition, gen_goalPosition = goalPosition sz\<rparr>"
  have n: "new_MazeGenerator sz wallDensity rnd k = Some (Inr (?gen, k'))"
    using assms(1) g(1) by (simp add: new_MazeGenerator_def)
  have 1: "\<exists>gen k'. new_MazeGenerator sz wallDensity rnd k = Some (Inr (gen, k'))
            \<and> gen_size gen = sz \<and> gen_wallDensity gen = wallDensity \<and> dims sz (gen_maze gen)
            \<and> gen_startPosition gen = (0, 0) \<and> gen_goalPosition gen = (sz - 1, sz - 1)"
    by (intro exI [of _ ?gen] exI [of _ k'])
       (use n g(2) in \<open>simp add: startPosition_def goalPosition_def\<close>)
  have 2: "new_MazeGenerator 0 wallDensity rnd k = Some (Inl TypeError)"
    "new_MazeGenerator (- sz) wallDensity rnd k = Some (Inl RangeError)"
    using assms(1) by (simp_all add: new_MazeGenerator_def)
  show ?thesis using 1 2 by (simp add: new_QLearningAgent_def)
qed

theorem constructors_accept_witness:
  "(1 :: int) \<le> 1 \<and> unit_draws (\<lambda>_. 0)
   \<and> (\<exists>gen k'. new_MazeGenerator 1 7 (\<lambda>_. 0) 0 = Some (Inr (gen, k'))
         \<and> gen_size gen = 1 \<and> gen_wallDensity gen = 7)"
proof -
  have s: "(1 :: int) \<le> 1" by simp
  have u: "unit_draws (\<lambda>_. 0)" by (simp add: unit_draws_def)
  from constructors_accept [OF s u, of 7 0] show ?thesis
    using s u by blast
qed

text \<open>
  Against C5 as stated: size 1 and wall density 7 build generators, and an agent is built
  with learning rate 7, discount factor -3 and exploration rate 2.
\<close>

theorem constructors_validate_counterexample:
  "new_MazeGenerator 1 (3 / 10) (\<lambda>_. 0) 0 =
     Some (Inr (\<lparr>gen_maze = [[0]], gen_size = 1, gen_wallDensity = 3 / 10,
                 gen_startPosition = (0, 0), gen_goalPosition = (0, 0)\<rparr>, 0))
   \<and> new_MazeGenerator 5 7 (\<lambda>_. 0) 0 =
     Some (Inr (\<lparr>gen_maze =
                   [[0, 0, 0, 0, 0], [1, 1, 1, 0, 0], [0, 0, 0, 1, 0], [0, 1, 0, 1, 0],
                    [0, 1, 0, 0, 0]],
                 gen_size = 5, gen_wallDensity = 7,
                 gen_startPosition = (0, 0), gen_goalPosition = (4, 4)\<rparr>, 10))
   \<and> new_QLearningAgent 5 7 (- 3) 2 =
       \<lparr>qTable = [], learningRate = 7, discountFactor = - 3, explorationRate = 2, mazeSize = 5\<rparr>"
proof -
  have 1: "new_MazeGenerator 1 (3 / 10) (\<lambda>_. 0) 0 =
     Some (Inr (\<lparr>gen_maze = [[0]], gen_size = 1, gen_wallDensity = 3 / 10,
                 gen_startPosition = (0, 0), gen_goalPosition = (0, 0)\<rparr>, 0))"
    by code_simp
  have 2: "new_MazeGenerator 5 7 (\<lambda>_. 0) 0 =
     Some (Inr (\<lparr>gen_maze =
                   [[0, 0, 0, 0, 0], [1, 1, 1, 0, 0], [0, 0, 0, 1, 0], [0, 1, 0, 1, 0],
                    [0, 1, 0, 0, 0]],
                 gen_size = 5, gen_wallDensity = 7,
                 gen_startPosition = (0, 0), gen_goalPosition = (4, 4)\<rparr>, 10))"
    by code_simp
  have 3: "new_QLearningAgent 5 7 (- 3) 2 =
       \<lparr>qTable = [], learningRate = 7, discountFactor = - 3, explorationRate = 2, mazeSize = 5\<rparr>"
    by (simp add: new_QLearningAgent_def)
  from 1 2 3 show ?thesis by blast
qed

end
